theory Spec2Isabelle
  imports Main "HOL-Library.AList"
begin

section \<open>Data model\<close>

text \<open>
  A JavaScript string is a sequence of UTF-16 code units; the model has the strings whose
  code units are below 256, a code unit being a \<open>char\<close>. \<open>undefined\<close> is \<open>None\<close>.

  A JavaScript object used as a dictionary is an association list of its own properties
  in the order of their creation (\<open>AList.update\<close> overwrites in place or appends,
  \<open>map_of\<close> reads an own property). \<open>Object.keys\<close> and \<open>Object.values\<close> enumerate the
  properties whose name is an array index first, in ascending numeric order, and then the
  others in the order of their creation. A dictionary that only stores truthy flags or
  handles (\<open>indexedIds\<close>, \<open>indexedCompositions\<close>, \<open>pendingIndex\<close>, \<open>pendingQueries\<close>) is the
  set of its own keys; reading \<open>obj[k]\<close> from it is also truthy when \<open>k\<close> names a property
  that a plain object inherits from \<open>Object.prototype\<close>. The target ids and tag ids under
  which annotations are stored and looked up, and the query ids (which are UUIDs), are
  taken not to be such names.
\<close>

definition Object_prototype :: "string list" where
  "Object_prototype =
     [''constructor'', ''__defineGetter__'', ''__defineSetter__'', ''hasOwnProperty'',
      ''__lookupGetter__'', ''__lookupSetter__'', ''isPrototypeOf'',
      ''propertyIsEnumerable'', ''toString'', ''valueOf'', ''__proto__'',
      ''toLocaleString'']"

text \<open>\<open>obj[k]\<close> is truthy, for a dictionary \<open>obj\<close> of truthy values with the own keys \<open>keys\<close>.\<close>

definition truthy_at :: "string set \<Rightarrow> string \<Rightarrow> bool" where
  "truthy_at keys k = (k \<in> keys \<or> k \<in> set Object_prototype)"

text \<open>An array index is the canonical decimal form of an integer from 0 to \<open>2^32 - 2\<close>.\<close>

definition isDigit :: "char \<Rightarrow> bool" where
  "isDigit c = (48 \<le> (of_char c :: nat) \<and> (of_char c :: nat) \<le> 57)"

definition decimal_value :: "string \<Rightarrow> nat" where
  "decimal_value k = foldl (\<lambda>n c. 10 * n + ((of_char c :: nat) - 48)) 0 k"

definition isArrayIndex :: "string \<Rightarrow> bool" where
  "isArrayIndex k =
     (case k of
        [] \<Rightarrow> False
      | c # cs \<Rightarrow> list_all isDigit k \<and> (cs = [] \<or> c \<noteq> CHR ''0'') \<and>
                  decimal_value k \<le> 4294967294)"

definition Object_keys :: "(string \<times> 'v) list \<Rightarrow> string list" where
  "Object_keys obj =
     sort_key decimal_value (filter isArrayIndex (map fst obj)) @
     filter (\<lambda>k. \<not> isArrayIndex k) (map fst obj)"

definition Object_values :: "(string \<times> 'v) list \<Rightarrow> 'v list" where
  "Object_values obj =
     map snd (sort_key (\<lambda>p. decimal_value (fst p)) (filter (\<lambda>p. isArrayIndex (fst p)) obj)) @
     map snd (filter (\<lambda>p. \<not> isArrayIndex (fst p)) obj)"

record Identifier =
  namespace :: string
  key :: string

record target =
  entryId :: "string option"

record domainObject =
  ident :: Identifier
  type :: string
  name :: string
  composition :: "Identifier list option"
  targets :: "(string \<times> target) list option"
  tags :: "string list option"

text \<open>The object \<open>objectToIndex\<close> that \<open>localIndexItem\<close> builds.\<close>

record indexedItem =
  i_type :: string
  i_name :: string
  i_keyString :: string
  i_targets :: "(string \<times> target) list option"
  i_tags :: "string list option"

text \<open>An object provider: whether it defines \<open>search\<close>, and what \<open>getAllObjects\<close> gives
  (\<open>None\<close>: the provider has no such method; \<open>Some None\<close>: it returns a falsy value).\<close>

record objectProvider =
  has_search :: bool
  getAllObjects :: "domainObject list option option"

text \<open>A thrown JavaScript exception: an \<open>Error\<close> with its message, or a \<open>TypeError\<close>.\<close>

datatype error = Error string | TypeError string

text \<open>The outcome of an awaited promise.\<close>

datatype 'a settled = Rejected | Resolved 'a

text \<open>
  The parts of the application object that the two classes consume. None of them is
  defined in the source files, so they are parameters of the model.
  \<open>sharedWorkerDefined\<close> is the host's \<open>typeof SharedWorker !== 'undefined'\<close>, and
  \<open>providers\<close> is \<open>Object.values\<close> of the registry of object providers. \<open>areIdsEqual\<close>
  takes the list of the arguments of a call, each an identifier or an array of
  identifiers: the source calls it with two identifiers in \<open>AnnotationAPI.get\<close> and with
  one array of two identifiers in \<open>onCompositionMutation\<close>.
\<close>

datatype argument = AnIdentifier Identifier | AnArray "Identifier list"

record openmct =
  makeKeyString :: "Identifier \<Rightarrow> string"
  parseKeyString :: "string \<Rightarrow> Identifier"
  getProvider :: "Identifier \<Rightarrow> objectProvider option"
  areIdsEqual :: "argument list \<Rightarrow> bool"
  objects_get :: "Identifier \<Rightarrow> domainObject option settled"
  rootObject :: domainObject
  providers :: "objectProvider list"
  sharedWorkerDefined :: bool

datatype sharedWorker = SharedWorker

datatype searchInput =
  TextInput string
  | TagKeysInput "string list option"

datatype workerMessage =
  IndexRequest domainObject string
  | SearchRequest string searchInput int string

text \<open>
  The fields of an \<open>InMemorySearchProvider\<close>, followed by the asynchronous work it has
  started and that has not run yet: \<open>fetching\<close> are the key strings whose
  \<open>objects.get\<close> a \<open>beginIndexRequest\<close> awaits, \<open>indexing\<close> counts the
  \<open>beginIndexRequest\<close> calls awaiting \<open>provider.index\<close>, \<open>timers\<close> counts the
  \<open>setTimeout\<close> callbacks not yet run, \<open>directFetches\<close> are the \<open>objects.get\<close> calls of
  \<open>onCompositionMutation\<close>; \<open>warnings\<close> is what \<open>console.warn\<close> received and \<open>posted\<close>
  what \<open>worker.port.postMessage\<close> received.
\<close>

record provider =
  indexedIds :: "string set"
  indexedCompositions :: "string set"
  idsToIndex :: "string list"
  pendingIndex :: "string set"
  pendingRequests :: int
  worker :: "sharedWorker option"
  localIndexedDomainObjects :: "(string \<times> indexedItem) list"
  localIndexedAnnotationsByDomainObject :: "(string \<times> indexedItem list) list"
  localIndexedAnnotationsByTag :: "(string \<times> indexedItem list) list"
  pendingQueries :: "string set"
  fetching :: "string list"
  indexing :: nat
  timers :: nat
  directFetches :: "Identifier list"
  warnings :: "string list"
  posted :: "workerMessage list"

definition MAX_CONCURRENT_REQUESTS :: int where
  "MAX_CONCURRENT_REQUESTS = 100"

definition DEFAULT_MAX_RESULTS :: int where
  "DEFAULT_MAX_RESULTS = 100"

text \<open>The state the constructor leaves.\<close>

definition constructor :: provider where
  "constructor = \<lparr>indexedIds = {}, indexedCompositions = {}, idsToIndex = [],
     pendingIndex = {}, pendingRequests = 0, worker = None,
     localIndexedDomainObjects = [], localIndexedAnnotationsByDomainObject = [],
     localIndexedAnnotationsByTag = [], pendingQueries = {}, fetching = [],
     indexing = 0, timers = 0, directFetches = [], warnings = [], posted = []\<rparr>"

section \<open>Index scheduler\<close>

text \<open>
  \<open>beginIndexRequest\<close> up to its first \<open>await\<close>: the head of the queue is shifted off, the
  counter is incremented and the fetch is issued. On an empty queue \<open>shift\<close> yields
  \<open>undefined\<close>, which as a property name reads \<open>undefined\<close>; \<open>keepIndexing\<close>, the only
  caller, never calls it so.
\<close>

definition beginIndexRequest :: "provider \<Rightarrow> provider" where
  "beginIndexRequest s =
     (case idsToIndex s of
        [] \<Rightarrow> s\<lparr>pendingRequests := pendingRequests s + 1,
                 fetching := fetching s @ [''undefined'']\<rparr>
      | keyString # rest \<Rightarrow>
          s\<lparr>idsToIndex := rest, pendingRequests := pendingRequests s + 1,
            fetching := fetching s @ [keyString]\<rparr>)"

function keepIndexing :: "provider \<Rightarrow> provider" where
  "keepIndexing s =
     (if pendingRequests s < MAX_CONCURRENT_REQUESTS \<and> idsToIndex s \<noteq> []
      then keepIndexing (beginIndexRequest s) else s)"
  by pat_completeness auto
termination
  by (relation "measure (\<lambda>s. length (idsToIndex s))")
     (auto simp: beginIndexRequest_def split: list.splits)

declare keepIndexing.simps [simp del]

definition scheduleForIndexing :: "openmct \<Rightarrow> Identifier \<Rightarrow> provider \<Rightarrow> provider" where
  "scheduleForIndexing om identifier s =
     (let keyString = makeKeyString om identifier;
          objectProvider = getProvider om identifier
      in keepIndexing
           (if (case objectProvider of None \<Rightarrow> True | Some p \<Rightarrow> \<not> has_search p)
            then (if \<not> truthy_at (indexedIds s) keyString \<and>
                     \<not> truthy_at (pendingIndex s) keyString
                  then s\<lparr>pendingIndex := insert keyString (pendingIndex s),
                         idsToIndex := idsToIndex s @ [keyString]\<rparr>
                  else s)
            else s))"

section \<open>Indexer\<close>

text \<open>\<open>if (!dict[k]) dict[k] = []; dict[k].push(item)\<close>\<close>

definition push_item ::
  "string \<Rightarrow> indexedItem \<Rightarrow> (string \<times> indexedItem list) list \<Rightarrow> (string \<times> indexedItem list) list" where
  "push_item k item d =
     AList.update k ((case map_of d k of None \<Rightarrow> [] | Some items \<Rightarrow> items) @ [item]) d"

text \<open>
  \<open>localIndexItem\<close> pushes one object, \<open>objectToIndex\<close>, into every list; inside both loops
  it first assigns the model's \<open>targets\<close> and \<open>tags\<close> to it, so that every pushed reference
  shows both. Assigning to the property \<open>__proto__\<close> of the primary index replaces the
  prototype of the index and creates no entry.
\<close>

definition localIndexItem :: "string \<Rightarrow> domainObject \<Rightarrow> provider \<Rightarrow> provider" where
  "localIndexItem keyStr model s =
     (let objectToIndex = \<lparr>i_type = type model, i_name = name model, i_keyString = keyStr,
                             i_targets = None, i_tags = None\<rparr>;
          annotationToIndex = objectToIndex\<lparr>i_targets := targets model, i_tags := tags model\<rparr>
      in if type model = ''annotation''
         then (let s1 = (case targets model of
                           None \<Rightarrow> s
                         | Some ts \<Rightarrow>
                             s\<lparr>localIndexedAnnotationsByDomainObject :=
                                 foldl (\<lambda>d targetID. push_item targetID annotationToIndex d)
                                   (localIndexedAnnotationsByDomainObject s) (Object_keys ts)\<rparr>)
               in case tags model of
                    None \<Rightarrow> s1
                  | Some tagIDs \<Rightarrow>
                      s1\<lparr>localIndexedAnnotationsByTag :=
                           foldl (\<lambda>d tagID. push_item tagID annotationToIndex d)
                             (localIndexedAnnotationsByTag s1) tagIDs\<rparr>)
         else if keyStr = ''__proto__'' then s
         else s\<lparr>localIndexedDomainObjects :=
                  AList.update keyStr objectToIndex (localIndexedDomainObjects s)\<rparr>)"

text \<open>
  What \<open>this.openmct.composition.get(domainObject)\<close> gives to \<open>index\<close>: \<open>undefined\<close>, or a
  composition whose \<open>load()\<close> is rejected, or one whose \<open>load()\<close> resolves with the children.
\<close>

datatype loadResult = NoComposition | LoadRejected | Loaded "domainObject list"

text \<open>
  \<open>index\<close>: the observers are registered the first time, the object is forwarded to the
  backend unless its key string is \<open>ROOT\<close>, and every loaded child is scheduled. The result
  is how the promise of \<open>index\<close> settles.
\<close>

definition index ::
  "openmct \<Rightarrow> domainObject \<Rightarrow> loadResult \<Rightarrow> provider \<Rightarrow> unit settled \<times> provider" where
  "index om domainObject loaded s =
     (let keyStr = makeKeyString om (ident domainObject);
          s1 = (if \<not> truthy_at (indexedIds s) keyStr
                then s\<lparr>indexedIds := insert keyStr (indexedIds s),
                       indexedCompositions := insert keyStr (indexedCompositions s)\<rparr>
                else s);
          s2 = (if keyStr \<noteq> ''ROOT''
                then (if worker s1 \<noteq> None
                      then s1\<lparr>posted := posted s1 @ [IndexRequest domainObject keyStr]\<rparr>
                      else localIndexItem keyStr domainObject s1)
                else s1)
      in case loaded of
           NoComposition \<Rightarrow> (Resolved (), s2)
         | LoadRejected \<Rightarrow> (Rejected, s2)
         | Loaded children \<Rightarrow>
             (Resolved (),
              foldl (\<lambda>s child. scheduleForIndexing om (ident child) s) s2 children))"

text \<open>
  Other work runs while \<open>index\<close> awaits \<open>composition.load()\<close>, so the two synchronous blocks
  of \<open>index\<close> are also defined apart: \<open>index_begin\<close> is \<open>index\<close> up to the \<open>await\<close>, and
  \<open>index_loaded\<close> is the rest, run once the children are loaded.
\<close>

definition index_begin :: "openmct \<Rightarrow> domainObject \<Rightarrow> provider \<Rightarrow> provider" where
  "index_begin om domainObject s =
     (let keyStr = makeKeyString om (ident domainObject);
          s1 = (if \<not> truthy_at (indexedIds s) keyStr
                then s\<lparr>indexedIds := insert keyStr (indexedIds s),
                       indexedCompositions := insert keyStr (indexedCompositions s)\<rparr>
                else s)
      in if keyStr \<noteq> ''ROOT''
         then (if worker s1 \<noteq> None
               then s1\<lparr>posted := posted s1 @ [IndexRequest domainObject keyStr]\<rparr>
               else localIndexItem keyStr domainObject s1)
         else s1)"

definition index_loaded :: "openmct \<Rightarrow> domainObject list \<Rightarrow> provider \<Rightarrow> provider" where
  "index_loaded om children s =
     foldl (\<lambda>s child. scheduleForIndexing om (ident child) s) s children"

text \<open>
  The rest of \<open>beginIndexRequest\<close>. \<open>beginIndexRequest_fetched\<close> runs when the awaited
  \<open>objects.get(keyString)\<close> settles: a rejection leaves the function at the \<open>await\<close>, which
  stands before the \<open>try\<close>; otherwise the key is deleted from \<open>pendingIndex\<close> and a defined
  object is handed to \<open>index\<close>, which runs up to its own \<open>await\<close>.
  \<open>beginIndexRequest_indexed\<close> runs when the awaited
  \<open>provider.index\<close> settles: a rejection is caught and logged, and the timer is set.
  \<open>timeoutCallback\<close> is the function given to \<open>setTimeout\<close>.
\<close>

definition setTimeout :: "provider \<Rightarrow> provider" where
  "setTimeout s = s\<lparr>timers := timers s + 1\<rparr>"

definition beginIndexRequest_fetched ::
  "openmct \<Rightarrow> string \<Rightarrow> domainObject option settled \<Rightarrow> provider \<Rightarrow> provider" where
  "beginIndexRequest_fetched om keyStr fetched s =
     (case fetched of
        Rejected \<Rightarrow> s\<lparr>fetching := remove1 keyStr (fetching s)\<rparr>
      | Resolved domainObject \<Rightarrow>
          (let s1 = s\<lparr>fetching := remove1 keyStr (fetching s),
                       pendingIndex := pendingIndex s - {keyStr}\<rparr>
           in case domainObject of
                None \<Rightarrow> setTimeout s1
              | Some obj \<Rightarrow> (index_begin om obj s1)\<lparr>indexing := indexing s1 + 1\<rparr>))"

definition beginIndexRequest_indexed :: "string \<Rightarrow> unit settled \<Rightarrow> provider \<Rightarrow> provider" where
  "beginIndexRequest_indexed keyStr indexed s =
     setTimeout
       ((case indexed of
           Rejected \<Rightarrow> s\<lparr>warnings := warnings s @ [''Failed to index domain object '' @ keyStr]\<rparr>
         | Resolved u \<Rightarrow> s)\<lparr>indexing := indexing s - 1\<rparr>)"

definition timeoutCallback :: "provider \<Rightarrow> provider" where
  "timeoutCallback s =
     keepIndexing (s\<lparr>timers := timers s - 1, pendingRequests := pendingRequests s - 1\<rparr>)"

subsection \<open>Startup\<close>

definition indexAnnotations :: "openmct \<Rightarrow> provider \<Rightarrow> provider" where
  "indexAnnotations om s =
     foldl (\<lambda>s objectProvider.
              case getAllObjects objectProvider of
                None \<Rightarrow> s
              | Some None \<Rightarrow> s
              | Some (Some allObjects) \<Rightarrow>
                  foldl (\<lambda>s domainObject.
                           if type domainObject = ''annotation''
                           then scheduleForIndexing om (ident domainObject) s else s)
                    s allObjects)
       s (providers om)"

text \<open>The test \<open>typeof SharedWorker !== 'undefined'\<close> is commented out in the source and
  replaced by \<open>false\<close>.\<close>

definition startIndexing :: "openmct \<Rightarrow> provider \<Rightarrow> provider" where
  "startIndexing om s =
     (let s1 = scheduleForIndexing om (ident (rootObject om)) s;
          s2 = indexAnnotations om s1
      in if False then s2\<lparr>worker := Some SharedWorker\<rparr> else s2)"

section \<open>Change observer\<close>

text \<open>
  \<open>onNameMutation\<close> and the \<open>then\<close> callback of \<open>onCompositionMutation\<close> call \<open>index\<close> and do
  not await it: they end where \<open>index\<close> reaches its \<open>await\<close>.
\<close>

definition onNameMutation :: "openmct \<Rightarrow> domainObject \<Rightarrow> string \<Rightarrow> provider \<Rightarrow> provider" where
  "onNameMutation om domainObject newName s =
     index_begin om (domainObject\<lparr>name := newName\<rparr>) s"

text \<open>
  \<open>onCompositionMutation\<close> issues one \<open>objects.get\<close> per identifier of the new composition
  for which \<open>areIdsEqual\<close>, called with the one array \<open>[identifier, indexedIdentifier]\<close>,
  is falsy for every \<open>indexedIdentifier\<close> of \<open>domainObject.composition\<close>. The
  \<open>domainObject\<close> is the object that \<open>index\<close> bound to the observer, and the function does
  not assign to its \<open>composition\<close>. Where \<open>domainObject.composition\<close> is undefined, the
  first call of the filter's callback throws. \<open>onCompositionMutation_fetched\<close> is the
  \<open>then\<close> callback of one such \<open>get\<close>: it calls \<open>index\<close>, which throws on an undefined
  object before it changes anything.
\<close>

definition onCompositionMutation ::
  "openmct \<Rightarrow> domainObject \<Rightarrow> Identifier list \<Rightarrow> provider \<Rightarrow> error + provider" where
  "onCompositionMutation om domainObject newComposition s =
     (case composition domainObject of
        None \<Rightarrow>
          (if newComposition = [] then Inr s
           else Inl (TypeError ''indexedComposition is undefined''))
      | Some indexedComposition \<Rightarrow>
          (let identifiersToIndex =
                 filter (\<lambda>identifier.
                           \<not> list_ex (\<lambda>indexedIdentifier.
                                         areIdsEqual om [AnArray [identifier, indexedIdentifier]])
                                indexedComposition)
                   newComposition
           in Inr (s\<lparr>directFetches := directFetches s @ identifiersToIndex\<rparr>)))"

definition onCompositionMutation_fetched ::
  "openmct \<Rightarrow> Identifier \<Rightarrow> domainObject option settled \<Rightarrow> provider \<Rightarrow> provider" where
  "onCompositionMutation_fetched om identifier fetched s =
     (let s1 = s\<lparr>directFetches := remove1 identifier (directFetches s)\<rparr>
      in case fetched of
           Rejected \<Rightarrow> s1
         | Resolved None \<Rightarrow> s1
         | Resolved (Some objectToIndex) \<Rightarrow> index_begin om objectToIndex s1)"

section \<open>Execution backend (local variant) and query coordinator\<close>

subsection \<open>String operations\<close>

text \<open>
  \<open>String.prototype.toLowerCase\<close>, \<open>trim\<close> and \<open>includes\<close> (here \<open>includes_str\<close>). Of the code
  units below 256, the upper-case letters are \<open>A\<close> to \<open>Z\<close> (65 to 90) and U+00C0 to U+00DE
  without the multiplication sign U+00D7, each 32 below its lower-case letter; the white
  space and line terminators that \<open>trim\<close> removes are 9 to 13, 32 and U+00A0.
\<close>

definition toLowerCase_char :: "char \<Rightarrow> char" where
  "toLowerCase_char c =
     (let n = (of_char c :: nat)
      in if (65 \<le> n \<and> n \<le> 90) \<or> (192 \<le> n \<and> n \<le> 222 \<and> n \<noteq> 215)
         then char_of (n + 32) else c)"

definition toLowerCase :: "string \<Rightarrow> string" where
  "toLowerCase str = map toLowerCase_char str"

definition isWhiteSpace :: "char \<Rightarrow> bool" where
  "isWhiteSpace c = ((of_char c :: nat) \<in> {9, 10, 11, 12, 13, 32, 160})"

definition trim :: "string \<Rightarrow> string" where
  "trim str = rev (dropWhile isWhiteSpace (rev (dropWhile isWhiteSpace str)))"

fun startsWith :: "'a list \<Rightarrow> 'a list \<Rightarrow> bool" where
  "startsWith str [] = True"
| "startsWith [] (y # ys) = False"
| "startsWith (x # xs) (y # ys) = (x = y \<and> startsWith xs ys)"

fun includes_str :: "'a list \<Rightarrow> 'a list \<Rightarrow> bool" where
  "includes_str [] searchString = (searchString = [])"
| "includes_str (x # xs) searchString =
     (startsWith (x # xs) searchString \<or> includes_str xs searchString)"

text \<open>\<open>Array.prototype.slice(0, end)\<close>: a negative \<open>end\<close> counts from the end of the array.\<close>

definition slice0 :: "int \<Rightarrow> 'a list \<Rightarrow> 'a list" where
  "slice0 e xs =
     (if e < 0 then take (nat (int (length xs) + e)) xs else take (nat e) xs)"

subsection \<open>Result handling\<close>

text \<open>The message a backend produces. An element of \<open>m_results\<close> can be \<open>undefined\<close>.\<close>

record message =
  m_request :: string
  m_results :: "indexedItem option list"
  m_total :: nat
  m_queryId :: string

record modelResults =
  total :: nat
  hits :: "domainObject option list"

text \<open>
  What the caller of a search sees: the call throws; or it returns a promise that never
  settles; or the promise resolves with the model results; or (with a worker) the request
  was posted and the promise waits for the worker's answer.
\<close>

datatype outcome = Threw error | Unresolved | ResolvedWith modelResults | Dispatched

text \<open>The callback that \<open>onWorkerMessage\<close> maps over the results: reading \<open>hit.keyString\<close>
  of an undefined hit throws inside the asynchronous callback, which rejects its promise.\<close>

definition hydrate :: "openmct \<Rightarrow> indexedItem option \<Rightarrow> domainObject option settled" where
  "hydrate om hit =
     (case hit of
        None \<Rightarrow> Rejected
      | Some item \<Rightarrow> objects_get om (parseKeyString om (i_keyString item)))"

fun promise_all :: "'a settled list \<Rightarrow> 'a list option" where
  "promise_all [] = Some []"
| "promise_all (Rejected # ps) = None"
| "promise_all (Resolved v # ps) =
     (case promise_all ps of None \<Rightarrow> None | Some vs \<Rightarrow> Some (v # vs))"

text \<open>
  \<open>onWorkerMessage\<close> is asynchronous: an exception inside it (a rejected hydration, or no
  pending query under the id) rejects its own promise, which nobody awaits, and the
  query stays pending.
\<close>

definition onWorkerMessage :: "openmct \<Rightarrow> message \<Rightarrow> provider \<Rightarrow> outcome \<times> provider" where
  "onWorkerMessage om msg s =
     (case promise_all (map (hydrate om) (m_results msg)) of
        None \<Rightarrow> (Unresolved, s)
      | Some hs \<Rightarrow>
          if m_queryId msg \<in> pendingQueries s
          then (ResolvedWith \<lparr>total = m_total msg, hits = hs\<rparr>,
                s\<lparr>pendingQueries := pendingQueries s - {m_queryId msg}\<rparr>)
          else (Unresolved, s))"

subsection \<open>The local searches\<close>

definition localSearchForObjects_message :: "string \<Rightarrow> string \<Rightarrow> int \<Rightarrow> provider \<Rightarrow> message" where
  "localSearchForObjects_message queryId searchInput maxResults s =
     (let input = toLowerCase (trim searchInput);
          results = filter (\<lambda>indexedItem. includes_str (toLowerCase (i_name indexedItem)) input)
                      (Object_values (localIndexedDomainObjects s))
      in \<lparr>m_request = ''searchForObjects'', m_results = map Some (slice0 maxResults results),
          m_total = length results, m_queryId = queryId\<rparr>)"

definition localSearchForObjects ::
  "openmct \<Rightarrow> string \<Rightarrow> string \<Rightarrow> int \<Rightarrow> provider \<Rightarrow> outcome \<times> provider" where
  "localSearchForObjects om queryId searchInput maxResults s =
     onWorkerMessage om (localSearchForObjects_message queryId searchInput maxResults s) s"

text \<open>Reading \<open>results.length\<close> of an undefined \<open>results\<close> throws a \<open>TypeError\<close>.\<close>

definition localSearchForAnnotations_message ::
  "string \<Rightarrow> string \<Rightarrow> int \<Rightarrow> provider \<Rightarrow> error + message" where
  "localSearchForAnnotations_message queryId searchInput maxResults s =
     (case map_of (localIndexedAnnotationsByDomainObject s) searchInput of
        None \<Rightarrow> Inl (TypeError ''results is undefined'')
      | Some results \<Rightarrow>
          Inr \<lparr>m_request = ''searchForAnnotations'',
               m_results = map Some (slice0 maxResults results),
               m_total = length results, m_queryId = queryId\<rparr>)"

definition localSearchForAnnotations ::
  "openmct \<Rightarrow> string \<Rightarrow> string \<Rightarrow> int \<Rightarrow> provider \<Rightarrow> outcome \<times> provider" where
  "localSearchForAnnotations om queryId searchInput maxResults s =
     (case localSearchForAnnotations_message queryId searchInput maxResults s of
        Inl e \<Rightarrow> (Threw e, s)
      | Inr msg \<Rightarrow> onWorkerMessage om msg s)"

text \<open>\<open>results.concat(x)\<close> appends the elements of an array \<open>x\<close>, and appends \<open>x\<close> itself
  when \<open>x\<close> is undefined.\<close>

definition localSearchForTags_message ::
  "string \<Rightarrow> string list option \<Rightarrow> int \<Rightarrow> provider \<Rightarrow> message" where
  "localSearchForTags_message queryId matchingTagKeys maxResults s =
     (let results =
            (case matchingTagKeys of
               None \<Rightarrow> []
             | Some tagKeys \<Rightarrow>
                 foldl (\<lambda>results matchingTag.
                          results @
                          (case map_of (localIndexedAnnotationsByTag s) matchingTag of
                             None \<Rightarrow> [None]
                           | Some matchingAnnotations \<Rightarrow> map Some matchingAnnotations))
                   [] tagKeys)
      in \<lparr>m_request = ''searchForTags'', m_results = slice0 maxResults results,
          m_total = length results, m_queryId = queryId\<rparr>)"

definition localSearchForTags ::
  "openmct \<Rightarrow> string \<Rightarrow> string list option \<Rightarrow> int \<Rightarrow> provider \<Rightarrow> outcome \<times> provider" where
  "localSearchForTags om queryId matchingTagKeys maxResults s =
     onWorkerMessage om (localSearchForTags_message queryId matchingTagKeys maxResults s) s"

subsection \<open>Dispatch\<close>

text \<open>
  \<open>search\<close>, with the fresh \<open>uuid()\<close> as the parameter \<open>queryId\<close>. \<open>maxResults\<close> is \<open>None\<close> when
  the caller passes none; \<open>!maxResults\<close> also holds for \<open>0\<close>. An exception of the local
  fallback leaves \<open>search\<close> after the pending query was stored.
\<close>

definition search ::
  "string \<Rightarrow> searchInput \<Rightarrow> string \<Rightarrow> (string \<Rightarrow> int \<Rightarrow> provider \<Rightarrow> outcome \<times> provider) \<Rightarrow>
   int option \<Rightarrow> provider \<Rightarrow> outcome \<times> provider" where
  "search queryId input queryType localQueryFallBack maxResults s =
     (let maxResults1 = (case maxResults of
                           None \<Rightarrow> DEFAULT_MAX_RESULTS
                         | Some n \<Rightarrow> if n = 0 then DEFAULT_MAX_RESULTS else n);
          s1 = s\<lparr>pendingQueries := insert queryId (pendingQueries s)\<rparr>
      in if worker s1 \<noteq> None
         then (Dispatched,
               s1\<lparr>posted := posted s1 @ [SearchRequest queryType input maxResults1 queryId]\<rparr>)
         else localQueryFallBack queryId maxResults1 s1)"

definition searchForObjects ::
  "openmct \<Rightarrow> string \<Rightarrow> string \<Rightarrow> int option \<Rightarrow> provider \<Rightarrow> outcome \<times> provider" where
  "searchForObjects om queryId input maxResults s =
     search queryId (TextInput input) ''searchForObjects''
       (\<lambda>q m. localSearchForObjects om q input m) maxResults s"

definition searchForAnnotations ::
  "openmct \<Rightarrow> string \<Rightarrow> string \<Rightarrow> int option \<Rightarrow> provider \<Rightarrow> outcome \<times> provider" where
  "searchForAnnotations om queryId input maxResults s =
     search queryId (TextInput input) ''searchForAnnotations''
       (\<lambda>q m. localSearchForAnnotations om q input m) maxResults s"

definition searchForTags ::
  "openmct \<Rightarrow> string \<Rightarrow> string list option \<Rightarrow> int option \<Rightarrow> provider \<Rightarrow> outcome \<times> provider" where
  "searchForTags om queryId input maxResults s =
     search queryId (TagKeysInput input) ''searchForTags''
       (\<lambda>q m. localSearchForTags om q input m) maxResults s"

section \<open>Annotation API\<close>

definition ANNOTATION_TYPES :: "(string \<times> string) list" where
  "ANNOTATION_TYPES =
     [(''NOTEBOOK'', ''notebook''), (''GEOSPATIAL'', ''geospatial''),
      (''PIXEL_SPATIAL'', ''pixelspatial''), (''TEMPORAL'', ''temporal''),
      (''PLOT_SPATIAL'', ''plotspatial'')]"

record annotation = domainObject +
  annotationType :: string
  contentText :: string
  originalContextPath :: string
  location :: string

text \<open>
  \<open>create\<close>. What the awaited collaborators give are parameters: \<open>uuid\<close> (the fresh key),
  \<open>contextPath\<close> (the relative path of the original path objects) and \<open>success\<close> (the
  result of \<open>objects.save\<close>). \<open>Object.keys(this.ANNOTATION_TYPES)\<close> is
  \<open>map fst ANNOTATION_TYPES\<close>. The type definition's \<open>initialize\<close> replaces a falsy
  \<open>tags\<close>, \<open>contentText\<close> and \<open>annotationType\<close> by its default.
\<close>

definition create ::
  "string \<Rightarrow> string \<Rightarrow> bool \<Rightarrow> string \<Rightarrow> domainObject \<Rightarrow> string \<Rightarrow> string list option \<Rightarrow>
   string \<Rightarrow> (string \<times> target) list \<Rightarrow> error + annotation" where
  "create uuid contextPath success newName domainObject newType newTags newText newTargets =
     (if newType \<in> set (map fst ANNOTATION_TYPES)
      then Inl (Error (''Unknown annotation type: '' @ newType))
      else if newTargets = []
      then Inl (Error ''At least one target is required to create an annotation'')
      else (let createdObject =
                  \<lparr>ident = \<lparr>namespace = namespace (ident domainObject), key = uuid\<rparr>,
                   type = ''annotation'', name = newName, composition = None,
                   targets = Some newTargets,
                   tags = Some (case newTags of None \<Rightarrow> [] | Some ts \<Rightarrow> ts),
                   annotationType = (if newType = [] then ''plotspatial'' else newType),
                   contentText = newText, originalContextPath = contextPath,
                   location = contextPath\<rparr>
            in if success then Inr createdObject
               else Inl (Error ''Failed to create object'')))"

text \<open>\<open>getMatchingTags\<close>; the tag dictionary \<open>availableTags.tags\<close> (a JSON file that is not
  among the sources) is the parameter \<open>allTags\<close>.\<close>

record tagModel =
  label :: string

definition getMatchingTags :: "(string \<times> tagModel) list \<Rightarrow> string \<Rightarrow> string list" where
  "getMatchingTags allTags query =
     filter (\<lambda>tagKey. case map_of allTags tagKey of
                         None \<Rightarrow> False
                       | Some t \<Rightarrow> includes_str (label t) query)
       (Object_keys allTags)"

section \<open>Reachable states\<close>

text \<open>
  A provider starts in the constructor's state; every step is one synchronous block of
  the source, run by a caller or by the event loop when the awaited promise settles, with
  whatever the object source answers. A call of \<open>index\<close> is the block \<open>index_begin\<close> inside
  the step of its caller and, when its composition has loaded, the step \<open>index_loaded\<close>
  with whatever children were loaded.
\<close>

inductive reachable :: "openmct \<Rightarrow> provider \<Rightarrow> bool" for om :: openmct where
  r_constructor: "reachable om constructor"
| r_start: "reachable om s \<Longrightarrow> reachable om (startIndexing om s)"
| r_schedule: "reachable om s \<Longrightarrow> reachable om (scheduleForIndexing om identifier s)"
| r_fetched: "reachable om s \<Longrightarrow> keyStr \<in> set (fetching s) \<Longrightarrow>
     reachable om (beginIndexRequest_fetched om keyStr fetched s)"
| r_loaded: "reachable om s \<Longrightarrow> reachable om (index_loaded om children s)"
| r_indexed: "reachable om s \<Longrightarrow> 0 < indexing s \<Longrightarrow>
     reachable om (beginIndexRequest_indexed keyStr indexed s)"
| r_timeout: "reachable om s \<Longrightarrow> 0 < timers s \<Longrightarrow> reachable om (timeoutCallback s)"
| r_name: "reachable om s \<Longrightarrow> reachable om (onNameMutation om domainObject newName s)"
| r_composition: "reachable om s \<Longrightarrow>
     onCompositionMutation om domainObject newComposition s = Inr s' \<Longrightarrow> reachable om s'"
| r_composition_fetched: "reachable om s \<Longrightarrow> identifier \<in> set (directFetches s) \<Longrightarrow>
     reachable om (onCompositionMutation_fetched om identifier fetched s)"
| r_searchForObjects: "reachable om s \<Longrightarrow>
     reachable om (snd (searchForObjects om queryId input maxResults s))"
| r_searchForAnnotations: "reachable om s \<Longrightarrow>
     reachable om (snd (searchForAnnotations om queryId input maxResults s))"
| r_searchForTags: "reachable om s \<Longrightarrow>
     reachable om (snd (searchForTags om queryId tagKeys maxResults s))"

section \<open>Notions used in the statements\<close>

text \<open>
  The identifiers that one run of \<open>keepIndexing\<close> admits; the provider at rest (nothing
  waits, or the ceiling is reached); the fetch+index operations in flight; the
  scheduler's invariant; the condition under which \<open>scheduleForIndexing\<close> enqueues, and
  the state with the key enqueued; the fields the scheduler and the backend work on.
\<close>

definition admitted :: "provider \<Rightarrow> nat" where
  "admitted s =
     min (length (idsToIndex s)) (nat (MAX_CONCURRENT_REQUESTS - pendingRequests s))"

definition quiescent :: "provider \<Rightarrow> bool" where
  "quiescent s = (idsToIndex s = [] \<or> MAX_CONCURRENT_REQUESTS \<le> pendingRequests s)"

definition inFlight :: "provider \<Rightarrow> nat" where
  "inFlight s = length (fetching s) + indexing s + timers s"

definition scheduler_inv :: "provider \<Rightarrow> bool" where
  "scheduler_inv s =
     (pendingRequests s \<le> MAX_CONCURRENT_REQUESTS \<and> int (inFlight s) \<le> pendingRequests s \<and>
      quiescent s \<and> distinct (fetching s @ idsToIndex s) \<and>
      set (fetching s @ idsToIndex s) \<subseteq> pendingIndex s)"

definition sched_fields ::
  "provider \<Rightarrow> string list \<times> string set \<times> int \<times> string list \<times> nat \<times> nat" where
  "sched_fields s =
     (idsToIndex s, pendingIndex s, pendingRequests s, fetching s, indexing s, timers s)"

definition shouldEnqueue :: "openmct \<Rightarrow> Identifier \<Rightarrow> provider \<Rightarrow> bool" where
  "shouldEnqueue om identifier s =
     ((case getProvider om identifier of None \<Rightarrow> True | Some p \<Rightarrow> \<not> has_search p) \<and>
      \<not> truthy_at (indexedIds s) (makeKeyString om identifier) \<and>
      \<not> truthy_at (pendingIndex s) (makeKeyString om identifier))"

definition enqueued :: "string \<Rightarrow> provider \<Rightarrow> provider" where
  "enqueued keyStr s =
     s\<lparr>pendingIndex := insert keyStr (pendingIndex s), idsToIndex := idsToIndex s @ [keyStr]\<rparr>"

definition index_fields ::
  "provider \<Rightarrow> sharedWorker option \<times> (string \<times> indexedItem) list \<times>
     (string \<times> indexedItem list) list \<times> (string \<times> indexedItem list) list" where
  "index_fields s =
     (worker s, localIndexedDomainObjects s, localIndexedAnnotationsByDomainObject s,
      localIndexedAnnotationsByTag s)"

definition annotationStep :: "openmct \<Rightarrow> provider \<Rightarrow> domainObject \<Rightarrow> provider" where
  "annotationStep om s domainObject =
     (if type domainObject = ''annotation''
      then scheduleForIndexing om (ident domainObject) s else s)"

text \<open>The entries the local backend can return.\<close>

definition backend_items :: "provider \<Rightarrow> indexedItem list" where
  "backend_items s =
     map snd (localIndexedDomainObjects s) @
     concat (map snd (localIndexedAnnotationsByDomainObject s)) @
     concat (map snd (localIndexedAnnotationsByTag s))"

text \<open>\<open>hay\<close> contains \<open>needle\<close> as a substring.\<close>

definition contains :: "'a list \<Rightarrow> 'a list \<Rightarrow> bool" where
  "contains hay needle = (\<exists>us vs. hay = us @ needle @ vs)"

subsection \<open>A concrete application object and concrete objects\<close>

definition example_keyString :: "Identifier \<Rightarrow> string" where
  "example_keyString i = (if namespace i = [] then key i else namespace i @ '':'' @ key i)"

definition example_object :: "string \<Rightarrow> string \<Rightarrow> domainObject" where
  "example_object k n =
     \<lparr>ident = \<lparr>namespace = [], key = k\<rparr>, type = ''folder'', name = n,
      composition = None, targets = None, tags = None\<rparr>"

text \<open>
  In the example, key strings are as Open MCT writes them, no provider has a native search,
  every object is found, and \<open>areIdsEqual\<close> compares the two identifiers it is handed, as
  two arguments or as one array.
\<close>

definition example_openmct :: openmct where
  "example_openmct =
     \<lparr>makeKeyString = example_keyString,
      parseKeyString = (\<lambda>k. \<lparr>namespace = [], key = k\<rparr>),
      getProvider = (\<lambda>i. None),
      areIdsEqual = (\<lambda>arguments. case arguments of
                                    [AnIdentifier a, AnIdentifier b] \<Rightarrow> a = b
                                  | [AnArray [a, b]] \<Rightarrow> a = b
                                  | _ \<Rightarrow> False),
      objects_get = (\<lambda>i. Resolved (Some (example_object (key i) (key i)))),
      rootObject = (example_object ''ROOT'' ''Open MCT'')\<lparr>composition := Some []\<rparr>,
      providers = [],
      sharedWorkerDefined = True\<rparr>"

text \<open>An indexed parent with the composition \<open>[a, b]\<close>.\<close>

definition example_parent :: domainObject where
  "example_parent =
     (example_object ''p'' ''parent'')
       \<lparr>composition := Some [\<lparr>namespace = [], key = ''a''\<rparr>, \<lparr>namespace = [], key = ''b''\<rparr>]\<rparr>"

definition example_children :: "nat \<Rightarrow> domainObject list" where
  "example_children n =
     map (\<lambda>i. example_object (replicate (Suc i) CHR ''a'') ''child'') [0..<n]"

definition example_tags :: "(string \<times> tagModel) list" where
  "example_tags = [(''tag1'', \<lparr>label = ''science''\<rparr>), (''tag2'', \<lparr>label = ''drilling''\<rparr>)]"

text \<open>The result cap that \<open>search\<close> hands on.\<close>

definition effectiveMaxResults :: "int option \<Rightarrow> int" where
  "effectiveMaxResults maxResults =
     (case maxResults of
        None \<Rightarrow> DEFAULT_MAX_RESULTS
      | Some n \<Rightarrow> if n = 0 then DEFAULT_MAX_RESULTS else n)"

text \<open>
  No entry of the backend has the key string \<open>ROOT\<close>. \<open>grows s s'\<close>: from \<open>s\<close> to \<open>s'\<close> the
  indexed ids are the same, the pending set and the queued or fetched keys only grow, and
  every newly pending key is queued or being fetched.
\<close>

definition no_root :: "provider \<Rightarrow> bool" where
  "no_root s = list_all (\<lambda>item. i_keyString item \<noteq> ''ROOT'') (backend_items s)"

definition grows :: "provider \<Rightarrow> provider \<Rightarrow> bool" where
  "grows s s' =
     (indexedIds s' = indexedIds s \<and> pendingIndex s \<subseteq> pendingIndex s' \<and>
      set (fetching s @ idsToIndex s) \<subseteq> set (fetching s' @ idsToIndex s') \<and>
      pendingIndex s' - pendingIndex s \<subseteq> set (fetching s' @ idsToIndex s'))"

text \<open>The provider after one object with key \<open>a\<close> and name \<open>a\<close> was indexed.\<close>

text \<open>
  The provider after four objects were indexed in this order: \<open>b\<close> named \<open>ab\<close>, \<open>10\<close> named
  \<open>A10\<close>, \<open>2\<close> named \<open>a2\<close> and \<open>c\<close> named \<open>zzz\<close>.
\<close>

definition example_four :: provider where
  "example_four =
     foldl (\<lambda>s domainObject. index_begin example_openmct domainObject s) constructor
       [example_object ''b'' ''ab'', example_object ''10'' ''A10'',
        example_object ''2'' ''a2'', example_object ''c'' ''zzz'']"

definition example_indexed :: provider where
  "example_indexed = index_begin example_openmct (example_object ''a'' ''a'') constructor"

section \<open>Auxiliary lemmas\<close>

lemma truthy_atI [simp]: "k \<in> keys \<Longrightarrow> truthy_at keys k"
  by (simp add: truthy_at_def)

lemma not_truthy_atD: "\<not> truthy_at keys k \<Longrightarrow> k \<notin> keys"
  by (simp add: truthy_at_def)

lemma truthy_at_mono: "keys \<subseteq> keys' \<Longrightarrow> truthy_at keys k \<Longrightarrow> truthy_at keys' k"
  by (auto simp: truthy_at_def)

lemma truthy_at_ROOT [simp]: "truthy_at keys ''ROOT'' = (''ROOT'' \<in> keys)"
  by (simp add: truthy_at_def Object_prototype_def)

lemma set_Object_values [simp]: "set (Object_values obj) = snd ` set obj"
  by (auto simp: Object_values_def)

lemma set_Object_keys [simp]: "set (Object_keys obj) = fst ` set obj"
  by (auto simp: Object_keys_def)

lemma Object_values_plain:
  "list_all (\<lambda>p. \<not> isArrayIndex (fst p)) obj \<Longrightarrow> Object_values obj = map snd obj"
  by (simp add: Object_values_def list_all_iff)

lemma Object_keys_plain:
  "list_all (\<lambda>p. \<not> isArrayIndex (fst p)) obj \<Longrightarrow> Object_keys obj = map fst obj"
  by (simp add: Object_keys_def list_all_iff filter_map o_def)

lemmas object_eval =
  truthy_at_def Object_prototype_def Object_keys_def Object_values_def isArrayIndex_def
  isDigit_def

lemma admitted_begin:
  "pendingRequests s < MAX_CONCURRENT_REQUESTS \<Longrightarrow> idsToIndex s = k # rest \<Longrightarrow>
   admitted s = Suc (admitted (beginIndexRequest s))"
  by (simp add: admitted_def beginIndexRequest_def)

lemma keepIndexing_closed:
  "keepIndexing s =
     s\<lparr>idsToIndex := drop (admitted s) (idsToIndex s),
       pendingRequests := pendingRequests s + int (admitted s),
       fetching := fetching s @ take (admitted s) (idsToIndex s)\<rparr>"
proof (induction s rule: keepIndexing.induct)
  case (1 s)
  show ?case
  proof (cases "pendingRequests s < MAX_CONCURRENT_REQUESTS \<and> idsToIndex s \<noteq> []")
    case True
    then obtain k rest where q: "idsToIndex s = k # rest" by (cases "idsToIndex s") auto
    from True have lt: "pendingRequests s < MAX_CONCURRENT_REQUESTS" by simp
    have a: "admitted s = Suc (admitted (beginIndexRequest s))"
      using admitted_begin[OF lt q] .
    have "keepIndexing s = keepIndexing (beginIndexRequest s)"
      using True by (subst keepIndexing.simps) simp
    also have "\<dots> = (beginIndexRequest s)\<lparr>idsToIndex := drop (admitted (beginIndexRequest s)) (idsToIndex (beginIndexRequest s)),
       pendingRequests := pendingRequests (beginIndexRequest s) + int (admitted (beginIndexRequest s)),
       fetching := fetching (beginIndexRequest s) @ take (admitted (beginIndexRequest s)) (idsToIndex (beginIndexRequest s))\<rparr>"
      using "1.IH"[OF True] .
    also have "\<dots> = s\<lparr>idsToIndex := drop (admitted s) (idsToIndex s),
       pendingRequests := pendingRequests s + int (admitted s),
       fetching := fetching s @ take (admitted s) (idsToIndex s)\<rparr>"
      unfolding a by (simp add: beginIndexRequest_def q)
    finally show ?thesis .
  next
    case False
    then have "admitted s = 0" by (auto simp: admitted_def)
    moreover have "keepIndexing s = s" using False by (subst keepIndexing.simps) auto
    ultimately show ?thesis by simp
  qed
qed

lemma keepIndexing_quiescent: "quiescent s \<Longrightarrow> keepIndexing s = s"
  by (subst keepIndexing.simps) (auto simp: quiescent_def)

lemma keepIndexing_frame:
  "indexedIds (keepIndexing s) = indexedIds s"
  "indexedCompositions (keepIndexing s) = indexedCompositions s"
  "pendingIndex (keepIndexing s) = pendingIndex s"
  "worker (keepIndexing s) = worker s"
  "localIndexedDomainObjects (keepIndexing s) = localIndexedDomainObjects s"
  "localIndexedAnnotationsByDomainObject (keepIndexing s) = localIndexedAnnotationsByDomainObject s"
  "localIndexedAnnotationsByTag (keepIndexing s) = localIndexedAnnotationsByTag s"
  "pendingQueries (keepIndexing s) = pendingQueries s"
  "indexing (keepIndexing s) = indexing s"
  "timers (keepIndexing s) = timers s"
  "directFetches (keepIndexing s) = directFetches s"
  "warnings (keepIndexing s) = warnings s"
  "posted (keepIndexing s) = posted s"
  by (subst keepIndexing_closed, simp)+

lemma keepIndexing_fifo:
  "fetching (keepIndexing s) @ idsToIndex (keepIndexing s) = fetching s @ idsToIndex s"
  by (subst (1 2) keepIndexing_closed) simp

lemma keepIndexing_inv:
  assumes "pendingRequests s \<le> MAX_CONCURRENT_REQUESTS"
    and "int (inFlight s) \<le> pendingRequests s"
    and "distinct (fetching s @ idsToIndex s)"
    and "set (fetching s @ idsToIndex s) \<subseteq> pendingIndex s"
  shows "scheduler_inv (keepIndexing s)"
proof -
  let ?n = "admitted s"
  have n1: "?n \<le> length (idsToIndex s)" and n2: "int ?n \<le> MAX_CONCURRENT_REQUESTS - pendingRequests s"
    using assms(1) by (simp_all add: admitted_def)
  have n3: "?n = length (idsToIndex s) \<or> int ?n = MAX_CONCURRENT_REQUESTS - pendingRequests s"
    using assms(1) by (auto simp: admitted_def min_def)
  have pr: "pendingRequests (keepIndexing s) = pendingRequests s + int ?n"
    by (subst keepIndexing_closed) simp
  have q: "idsToIndex (keepIndexing s) = drop ?n (idsToIndex s)"
    by (subst keepIndexing_closed) simp
  have f: "fetching (keepIndexing s) = fetching s @ take ?n (idsToIndex s)"
    by (subst keepIndexing_closed) simp
  have fl: "inFlight (keepIndexing s) = inFlight s + ?n"
    using n1 by (simp add: inFlight_def f keepIndexing_frame)
  have "quiescent (keepIndexing s)"
    using n3 by (auto simp: quiescent_def pr q)
  moreover have "pendingRequests (keepIndexing s) \<le> MAX_CONCURRENT_REQUESTS"
    using n2 by (simp add: pr)
  moreover have "int (inFlight (keepIndexing s)) \<le> pendingRequests (keepIndexing s)"
    using assms(2) by (simp add: fl pr)
  ultimately show ?thesis
    using assms(3,4) by (simp add: scheduler_inv_def keepIndexing_fifo keepIndexing_frame)
qed

lemma scheduler_inv_cong:
  "sched_fields s' = sched_fields s \<Longrightarrow> scheduler_inv s' = scheduler_inv s"
  by (simp add: sched_fields_def scheduler_inv_def quiescent_def inFlight_def)

lemma scheduleForIndexing_unfold:
  "scheduleForIndexing om identifier s =
     keepIndexing (if shouldEnqueue om identifier s
                   then enqueued (makeKeyString om identifier) s else s)"
  by (simp add: scheduleForIndexing_def shouldEnqueue_def enqueued_def Let_def)

lemma scheduleForIndexing_inv:
  assumes "scheduler_inv s"
  shows "scheduler_inv (scheduleForIndexing om identifier s)"
proof (cases "shouldEnqueue om identifier s")
  case True
  let ?k = "makeKeyString om identifier"
  from True have k: "?k \<notin> pendingIndex s" by (simp add: shouldEnqueue_def not_truthy_atD)
  have "scheduler_inv (keepIndexing (enqueued ?k s))"
  proof (rule keepIndexing_inv)
    show "pendingRequests (enqueued ?k s) \<le> MAX_CONCURRENT_REQUESTS"
      using assms by (simp add: enqueued_def scheduler_inv_def)
    show "int (inFlight (enqueued ?k s)) \<le> pendingRequests (enqueued ?k s)"
      using assms by (simp add: enqueued_def scheduler_inv_def inFlight_def)
    show "distinct (fetching (enqueued ?k s) @ idsToIndex (enqueued ?k s))"
      using assms k by (auto simp: enqueued_def scheduler_inv_def)
    show "set (fetching (enqueued ?k s) @ idsToIndex (enqueued ?k s))
            \<subseteq> pendingIndex (enqueued ?k s)"
      using assms by (auto simp: enqueued_def scheduler_inv_def)
  qed
  with True show ?thesis by (simp add: scheduleForIndexing_unfold)
next
  case False
  have "keepIndexing s = s"
    using assms by (simp add: keepIndexing_quiescent scheduler_inv_def)
  with False assms show ?thesis by (simp add: scheduleForIndexing_unfold)
qed

lemma sched_fields_localIndexItem [simp]:
  "sched_fields (localIndexItem keyStr model s) = sched_fields s"
  by (simp add: localIndexItem_def sched_fields_def Let_def split: option.splits)

lemma sched_fields_index [simp]: "sched_fields (index_begin om domainObject s) = sched_fields s"
proof -
  have "sched_fields (s\<lparr>indexedIds := a, indexedCompositions := b\<rparr>) = sched_fields s" for a b
    by (simp add: sched_fields_def)
  moreover have "sched_fields (s'\<lparr>posted := p\<rparr>) = sched_fields s'" for s' p
    by (simp add: sched_fields_def)
  ultimately show ?thesis
    by (simp add: index_begin_def Let_def)
qed

lemma index_fields_keepIndexing [simp]: "index_fields (keepIndexing s) = index_fields s"
  by (simp add: index_fields_def keepIndexing_frame)

lemma index_fields_scheduleForIndexing [simp]:
  "index_fields (scheduleForIndexing om identifier s) = index_fields s"
  by (simp add: scheduleForIndexing_unfold enqueued_def) (simp add: index_fields_def)

lemma foldl_preserves:
  assumes "\<And>s x. P s \<Longrightarrow> P (f s x)" and "P s"
  shows "P (foldl f s xs)"
  using assms(2) by (induction xs arbitrary: s) (simp_all add: assms(1))

lemma foldl_unchanged:
  assumes "\<And>s x. g (f s x) = g s"
  shows "g (foldl f s xs) = g s"
  by (induction xs arbitrary: s) (simp_all add: assms)

lemma index_loaded_inv:
  "scheduler_inv s \<Longrightarrow> scheduler_inv (index_loaded om children s)"
  unfolding index_loaded_def
  by (rule foldl_preserves[where P = scheduler_inv]) (simp_all add: scheduleForIndexing_inv)

lemma index_fields_index_loaded [simp]:
  "index_fields (index_loaded om children s) = index_fields s"
  unfolding index_loaded_def
  by (rule foldl_unchanged[where g = index_fields]) simp

lemma indexAnnotations_unfold:
  "indexAnnotations om s =
     foldl (\<lambda>s objectProvider.
              case getAllObjects objectProvider of
                None \<Rightarrow> s
              | Some None \<Rightarrow> s
              | Some (Some allObjects) \<Rightarrow> foldl (annotationStep om) s allObjects)
       s (providers om)"
  unfolding indexAnnotations_def annotationStep_def ..

lemma indexAnnotations_inv:
  "scheduler_inv s \<Longrightarrow> scheduler_inv (indexAnnotations om s)"
  unfolding indexAnnotations_unfold
proof (rule foldl_preserves[where P = scheduler_inv])
  fix s' :: provider and objectProvider :: objectProvider
  assume inv: "scheduler_inv s'"
  have "scheduler_inv (foldl (annotationStep om) s' allObjects)" for allObjects
    using inv
    by (rule foldl_preserves[where P = scheduler_inv, rotated])
       (simp add: annotationStep_def scheduleForIndexing_inv)
  then show "scheduler_inv (case getAllObjects objectProvider of
                None \<Rightarrow> s'
              | Some None \<Rightarrow> s'
              | Some (Some allObjects) \<Rightarrow> foldl (annotationStep om) s' allObjects)"
    using inv by (simp split: option.splits)
qed

lemma index_fields_indexAnnotations [simp]:
  "index_fields (indexAnnotations om s) = index_fields s"
  unfolding indexAnnotations_unfold
proof (rule foldl_unchanged[where g = index_fields])
  fix s' :: provider and objectProvider :: objectProvider
  have "index_fields (foldl (annotationStep om) s' allObjects) = index_fields s'" for allObjects
    by (rule foldl_unchanged[where g = index_fields]) (simp add: annotationStep_def)
  then show "index_fields (case getAllObjects objectProvider of
                None \<Rightarrow> s'
              | Some None \<Rightarrow> s'
              | Some (Some allObjects) \<Rightarrow> foldl (annotationStep om) s' allObjects)
             = index_fields s'"
    by (simp split: option.splits)
qed

lemma startIndexing_inv: "scheduler_inv s \<Longrightarrow> scheduler_inv (startIndexing om s)"
  by (simp add: startIndexing_def indexAnnotations_inv scheduleForIndexing_inv)

lemma index_fields_startIndexing [simp]:
  "index_fields (startIndexing om s) = index_fields s"
  by (simp add: startIndexing_def)

lemma beginIndexRequest_fetched_inv:
  assumes "scheduler_inv s" and "keyStr \<in> set (fetching s)"
  shows "scheduler_inv (beginIndexRequest_fetched om keyStr fetched s)"
proof -
  have len: "Suc (length (remove1 keyStr (fetching s))) = length (fetching s)"
    using assms(2) length_pos_if_in_set[OF assms(2)] by (simp add: length_remove1)
  have d: "distinct (fetching s)" "distinct (idsToIndex s)"
    "set (fetching s) \<inter> set (idsToIndex s) = {}"
    using assms(1) by (auto simp: scheduler_inv_def)
  have k: "keyStr \<notin> set (remove1 keyStr (fetching s))" "keyStr \<notin> set (idsToIndex s)"
    using d assms(2) by auto
  have sub: "set (remove1 keyStr (fetching s)) \<subseteq> set (fetching s)"
    by (rule set_remove1_subset)
  have pr: "pendingRequests s \<le> MAX_CONCURRENT_REQUESTS" and q: "quiescent s"
    and fl: "int (length (fetching s) + indexing s + timers s) \<le> pendingRequests s"
    and pe: "set (fetching s) \<subseteq> pendingIndex s" "set (idsToIndex s) \<subseteq> pendingIndex s"
    using assms(1) by (auto simp: scheduler_inv_def inFlight_def)
  have fl': "int (length (remove1 keyStr (fetching s)) + indexing s + timers s) + 1
               \<le> pendingRequests s"
    using fl len by linarith
  have dist': "distinct (remove1 keyStr (fetching s) @ idsToIndex s)"
    using d sub by auto
  show ?thesis
  proof (cases fetched)
    case Rejected
    have "set (remove1 keyStr (fetching s) @ idsToIndex s) \<subseteq> pendingIndex s"
      using sub pe by auto
    with Rejected pr q fl' dist' show ?thesis
      by (simp add: beginIndexRequest_fetched_def scheduler_inv_def inFlight_def
          quiescent_def)
  next
    case (Resolved domainObject)
    let ?s1 = "s\<lparr>fetching := remove1 keyStr (fetching s),
                  pendingIndex := pendingIndex s - {keyStr}\<rparr>"
    have pe': "set (remove1 keyStr (fetching s) @ idsToIndex s) \<subseteq> pendingIndex s - {keyStr}"
      using sub pe k by auto
    show ?thesis
    proof (cases domainObject)
      case None
      with Resolved pr q fl' dist' pe' show ?thesis
        by (simp add: beginIndexRequest_fetched_def setTimeout_def scheduler_inv_def
            inFlight_def quiescent_def)
    next
      case (Some obj)
      have eq: "sched_fields ((index_begin om obj ?s1)\<lparr>indexing := indexing ?s1 + 1\<rparr>)
            = sched_fields (?s1\<lparr>indexing := indexing ?s1 + 1\<rparr>)"
        using sched_fields_index[of om obj ?s1] by (simp add: sched_fields_def)
      have "scheduler_inv (?s1\<lparr>indexing := indexing ?s1 + 1\<rparr>)"
        using pr q fl' dist' pe' by (simp add: scheduler_inv_def inFlight_def quiescent_def)
      then have "scheduler_inv ((index_begin om obj ?s1)\<lparr>indexing := indexing ?s1 + 1\<rparr>)"
        by (simp only: scheduler_inv_cong[OF eq])
      then show ?thesis
        using Resolved Some by (simp add: beginIndexRequest_fetched_def)
    qed
  qed
qed

lemma beginIndexRequest_indexed_inv:
  assumes "scheduler_inv s" and "0 < indexing s"
  shows "scheduler_inv (beginIndexRequest_indexed keyStr indexed s)"
proof -
  have eq: "sched_fields (beginIndexRequest_indexed keyStr indexed s)
        = sched_fields (s\<lparr>indexing := indexing s - 1, timers := timers s + 1\<rparr>)"
    by (cases indexed) (simp_all add: beginIndexRequest_indexed_def setTimeout_def sched_fields_def)
  have "scheduler_inv (s\<lparr>indexing := indexing s - 1, timers := timers s + 1\<rparr>)"
    using assms by (simp add: scheduler_inv_def inFlight_def quiescent_def)
  then show ?thesis by (simp only: scheduler_inv_cong[OF eq])
qed

lemma timeoutCallback_inv:
  assumes "scheduler_inv s" and "0 < timers s"
  shows "scheduler_inv (timeoutCallback s)"
  unfolding timeoutCallback_def
proof (rule keepIndexing_inv)
  let ?s1 = "s\<lparr>timers := timers s - 1, pendingRequests := pendingRequests s - 1\<rparr>"
  show "pendingRequests ?s1 \<le> MAX_CONCURRENT_REQUESTS"
    using assms(1) by (simp add: scheduler_inv_def)
  show "int (inFlight ?s1) \<le> pendingRequests ?s1"
    using assms by (simp add: scheduler_inv_def inFlight_def)
  show "distinct (fetching ?s1 @ idsToIndex ?s1)"
    using assms(1) by (simp add: scheduler_inv_def)
  show "set (fetching ?s1 @ idsToIndex ?s1) \<subseteq> pendingIndex ?s1"
    using assms(1) by (simp add: scheduler_inv_def)
qed

lemma sched_fields_onWorkerMessage [simp]:
  "sched_fields (snd (onWorkerMessage om msg s)) = sched_fields s"
  by (simp add: onWorkerMessage_def sched_fields_def split: option.splits)

lemma index_fields_onWorkerMessage [simp]:
  "index_fields (snd (onWorkerMessage om msg s)) = index_fields s"
  by (simp add: onWorkerMessage_def index_fields_def split: option.splits)

lemma sched_fields_search:
  assumes "\<And>q m s'. sched_fields (snd (fallback q m s')) = sched_fields s'"
  shows "sched_fields (snd (search queryId input queryType fallback maxResults s)) = sched_fields s"
proof -
  have "sched_fields (s\<lparr>pendingQueries := a\<rparr>) = sched_fields s" for a
    by (simp add: sched_fields_def)
  moreover have "sched_fields (s\<lparr>pendingQueries := a, posted := b\<rparr>) = sched_fields s" for a b
    by (simp add: sched_fields_def)
  ultimately show ?thesis
    by (simp add: search_def Let_def assms)
qed

lemma index_fields_search:
  assumes "\<And>q m s'. index_fields (snd (fallback q m s')) = index_fields s'"
  shows "index_fields (snd (search queryId input queryType fallback maxResults s)) = index_fields s"
proof -
  have "index_fields (s\<lparr>pendingQueries := a\<rparr>) = index_fields s" for a
    by (simp add: index_fields_def)
  moreover have "index_fields (s\<lparr>pendingQueries := a, posted := b\<rparr>) = index_fields s" for a b
    by (simp add: index_fields_def)
  ultimately show ?thesis
    by (simp add: search_def Let_def assms)
qed

lemma sched_fields_searches [simp]:
  "sched_fields (snd (searchForObjects om queryId input maxResults s)) = sched_fields s"
  "sched_fields (snd (searchForAnnotations om queryId input maxResults s)) = sched_fields s"
  "sched_fields (snd (searchForTags om queryId tagKeys maxResults s)) = sched_fields s"
  unfolding searchForObjects_def searchForAnnotations_def searchForTags_def
  by (rule sched_fields_search;
      simp add: localSearchForObjects_def localSearchForAnnotations_def localSearchForTags_def
        split: sum.splits)+

lemma index_fields_searches [simp]:
  "index_fields (snd (searchForObjects om queryId input maxResults s)) = index_fields s"
  "index_fields (snd (searchForAnnotations om queryId input maxResults s)) = index_fields s"
  "index_fields (snd (searchForTags om queryId tagKeys maxResults s)) = index_fields s"
  unfolding searchForObjects_def searchForAnnotations_def searchForTags_def
  by (rule index_fields_search;
      simp add: localSearchForObjects_def localSearchForAnnotations_def localSearchForTags_def
        split: sum.splits)+

lemma sched_fields_onCompositionMutation:
  "onCompositionMutation om domainObject newComposition s = Inr s' \<Longrightarrow>
   sched_fields s' = sched_fields s"
  by (auto simp: onCompositionMutation_def sched_fields_def Let_def
      split: option.splits if_splits)

lemma index_fields_onCompositionMutation:
  "onCompositionMutation om domainObject newComposition s = Inr s' \<Longrightarrow>
   index_fields s' = index_fields s"
  by (auto simp: onCompositionMutation_def index_fields_def Let_def
      split: option.splits if_splits)

lemma sched_fields_onCompositionMutation_fetched [simp]:
  "sched_fields (onCompositionMutation_fetched om identifier fetched s) = sched_fields s"
proof -
  have "sched_fields (s\<lparr>directFetches := a\<rparr>) = sched_fields s" for a
    by (simp add: sched_fields_def)
  then show ?thesis
    by (simp add: onCompositionMutation_fetched_def Let_def split: settled.splits option.splits)
qed

lemma reachable_scheduler_inv: "reachable om s \<Longrightarrow> scheduler_inv s"
proof (induction rule: reachable.induct)
  case r_constructor
  show ?case
    by (simp add: scheduler_inv_def constructor_def inFlight_def quiescent_def
        MAX_CONCURRENT_REQUESTS_def)
next
  case (r_start s)
  then show ?case by (simp add: startIndexing_inv)
next
  case (r_schedule s i)
  then show ?case by (simp add: scheduleForIndexing_inv)
next
  case (r_fetched s keyStr fetched)
  then show ?case by (simp add: beginIndexRequest_fetched_inv)
next
  case (r_loaded s children)
  then show ?case by (simp add: index_loaded_inv)
next
  case (r_indexed s keyStr indexed)
  then show ?case by (simp add: beginIndexRequest_indexed_inv)
next
  case (r_timeout s)
  then show ?case by (simp add: timeoutCallback_inv)
next
  case (r_name s domainObject newName)
  then show ?case
    by (simp only: onNameMutation_def scheduler_inv_cong[OF sched_fields_index])
next
  case (r_composition s domainObject newComposition s')
  then show ?case
    by (simp only: scheduler_inv_cong[OF sched_fields_onCompositionMutation])
next
  case (r_composition_fetched s i fetched)
  then show ?case
    by (simp only: scheduler_inv_cong[OF sched_fields_onCompositionMutation_fetched])
next
  case (r_searchForObjects s queryId input maxResults)
  then show ?case by (simp only: scheduler_inv_cong[OF sched_fields_searches(1)])
next
  case (r_searchForAnnotations s queryId input maxResults)
  then show ?case by (simp only: scheduler_inv_cong[OF sched_fields_searches(2)])
next
  case (r_searchForTags s queryId tagKeys maxResults)
  then show ?case by (simp only: scheduler_inv_cong[OF sched_fields_searches(3)])
qed



lemma shouldEnqueue_keepIndexing [simp]:
  "shouldEnqueue om identifier (keepIndexing s) = shouldEnqueue om identifier s"
  by (simp add: shouldEnqueue_def keepIndexing_frame)

lemma not_shouldEnqueue_after:
  "\<not> shouldEnqueue om identifier (scheduleForIndexing om identifier s)"
  by (simp add: scheduleForIndexing_unfold) (simp add: shouldEnqueue_def enqueued_def)




lemma scheduleForIndexing_queue:
  "fetching (scheduleForIndexing om identifier s) @ idsToIndex (scheduleForIndexing om identifier s)
     = fetching s @ idsToIndex s @
         (if shouldEnqueue om identifier s then [makeKeyString om identifier] else [])"
  by (simp add: scheduleForIndexing_unfold keepIndexing_fifo enqueued_def)

lemma scheduleForIndexing_pendingIndex:
  "pendingIndex (scheduleForIndexing om identifier s)
     = (if shouldEnqueue om identifier s
        then insert (makeKeyString om identifier) (pendingIndex s) else pendingIndex s)"
  by (simp add: scheduleForIndexing_unfold keepIndexing_frame enqueued_def)

lemma example_schedule:
  "scheduleForIndexing example_openmct \<lparr>namespace = [], key = ''a''\<rparr> constructor
   = constructor\<lparr>pendingIndex := {''a''}, pendingRequests := 1, fetching := [''a'']\<rparr>"
  by (simp add: scheduleForIndexing_def example_openmct_def example_keyString_def constructor_def
      keepIndexing.simps beginIndexRequest_def MAX_CONCURRENT_REQUESTS_def Let_def object_eval)

lemma example_loaded:
  "index_loaded example_openmct (example_children 2) constructor
     = constructor\<lparr>pendingIndex := {''a'', ''aa''}, pendingRequests := 2,
         fetching := [''a'', ''aa'']\<rparr>"
  by (simp add: index_loaded_def example_children_def example_object_def
      scheduleForIndexing_def example_openmct_def example_keyString_def constructor_def
      keepIndexing.simps beginIndexRequest_def MAX_CONCURRENT_REQUESTS_def Let_def
      upt_rec numeral_2_eq_2 insert_commute object_eval)

lemma example_admitted:
  "admitted (constructor\<lparr>idsToIndex := [''a'', ''b'', ''c''], pendingRequests := 98\<rparr>) = 2"
  by (simp add: admitted_def constructor_def MAX_CONCURRENT_REQUESTS_def)

lemma create_unknown_type_iff:
  "(create uuid contextPath success newName domainObject newType newTags newText newTargets
      = Inl (Error (''Unknown annotation type: '' @ newType)))
   = (newType \<in> {''NOTEBOOK'', ''GEOSPATIAL'', ''PIXEL_SPATIAL'', ''TEMPORAL'', ''PLOT_SPATIAL''})"
  by (auto simp: create_def ANNOTATION_TYPES_def Let_def)

lemma foldl_append_concat:
  "foldl (\<lambda>results x. results @ f x) acc xs = acc @ concat (map f xs)"
  by (induction xs arbitrary: acc) simp_all

lemma localSearchForTags_message_indexed:
  assumes "list_all (\<lambda>k. map_of (localIndexedAnnotationsByTag s) k \<noteq> None) tagKeys"
  shows "localSearchForTags_message queryId (Some tagKeys) maxResults s =
     \<lparr>m_request = ''searchForTags'',
      m_results = slice0 maxResults
        (concat (map (\<lambda>k. map Some (the (map_of (localIndexedAnnotationsByTag s) k))) tagKeys)),
      m_total = length
        (concat (map (\<lambda>k. map Some (the (map_of (localIndexedAnnotationsByTag s) k))) tagKeys)),
      m_queryId = queryId\<rparr>"
proof -
  have "map (\<lambda>k. case map_of (localIndexedAnnotationsByTag s) k of
                     None \<Rightarrow> [None] | Some anns \<Rightarrow> map Some anns) tagKeys
        = map (\<lambda>k. map Some (the (map_of (localIndexedAnnotationsByTag s) k))) tagKeys"
    using assms by (induction tagKeys) auto
  then show ?thesis
    by (simp only: localSearchForTags_message_def Let_def option.case foldl_append_concat
        append_Nil)
qed

lemma example_matching: "getMatchingTags example_tags ''sci'' = [''tag1'']"
  by (simp add: getMatchingTags_def example_tags_def Object_keys_def isArrayIndex_def
      isDigit_def)

lemma worker_localIndexItem [simp]: "worker (localIndexItem keyStr model s) = worker s"
  by (simp add: localIndexItem_def Let_def split: option.splits)

lemma worker_index [simp]: "worker (index_begin om domainObject s) = worker s"
  by (simp add: index_begin_def Let_def)

lemma worker_index_fields: "index_fields s' = index_fields s \<Longrightarrow> worker s' = worker s"
  by (simp add: index_fields_def)

lemma worker_beginIndexRequest_fetched [simp]:
  "worker (beginIndexRequest_fetched om keyStr fetched s) = worker s"
  by (simp add: beginIndexRequest_fetched_def setTimeout_def Let_def
      split: settled.splits option.splits)

lemma worker_beginIndexRequest_indexed [simp]:
  "worker (beginIndexRequest_indexed keyStr indexed s) = worker s"
  by (simp add: beginIndexRequest_indexed_def setTimeout_def split: settled.splits)

lemma worker_timeoutCallback [simp]: "worker (timeoutCallback s) = worker s"
  by (simp add: timeoutCallback_def keepIndexing_frame)

lemma worker_onCompositionMutation_fetched [simp]:
  "worker (onCompositionMutation_fetched om i fetched s) = worker s"
  by (simp add: onCompositionMutation_fetched_def Let_def split: settled.splits option.splits)

lemma reachable_worker: "reachable om s \<Longrightarrow> worker s = None"
proof (induction rule: reachable.induct)
  case r_constructor
  show ?case by (simp add: constructor_def)
next
  case (r_start s)
  then show ?case using worker_index_fields[OF index_fields_startIndexing] by simp
next
  case (r_schedule s i)
  then show ?case using worker_index_fields[OF index_fields_scheduleForIndexing] by simp
next
  case (r_fetched s keyStr fetched)
  then show ?case by simp
next
  case (r_loaded s children)
  then show ?case using worker_index_fields[OF index_fields_index_loaded] by simp
next
  case (r_indexed s keyStr indexed)
  then show ?case by simp
next
  case (r_timeout s)
  then show ?case by simp
next
  case (r_name s domainObject newName)
  then show ?case by (simp add: onNameMutation_def)
next
  case (r_composition s domainObject newComposition s')
  then show ?case using worker_index_fields[OF index_fields_onCompositionMutation] by simp
next
  case (r_composition_fetched s i fetched)
  then show ?case by simp
next
  case (r_searchForObjects s queryId input maxResults)
  then show ?case using worker_index_fields[OF index_fields_searches(1)] by simp
next
  case (r_searchForAnnotations s queryId input maxResults)
  then show ?case using worker_index_fields[OF index_fields_searches(2)] by simp
next
  case (r_searchForTags s queryId tagKeys maxResults)
  then show ?case using worker_index_fields[OF index_fields_searches(3)] by simp
qed

lemma search_local:
  "worker s = None \<Longrightarrow>
   search queryId input queryType localQueryFallBack maxResults s
     = localQueryFallBack queryId (effectiveMaxResults maxResults)
         (s\<lparr>pendingQueries := insert queryId (pendingQueries s)\<rparr>)"
  by (simp add: search_def effectiveMaxResults_def Let_def)

lemma example_start:
  "startIndexing example_openmct constructor
     = constructor\<lparr>pendingIndex := {''ROOT''}, pendingRequests := 1, fetching := [''ROOT'']\<rparr>"
  by (simp add: startIndexing_def indexAnnotations_def scheduleForIndexing_def
      example_openmct_def example_object_def example_keyString_def constructor_def
      keepIndexing.simps beginIndexRequest_def MAX_CONCURRENT_REQUESTS_def Let_def)

lemma set_values_update:
  "set (map snd (AList.update k v al)) \<subseteq> insert v (set (map snd al))"
  by (induction al) auto

lemma set_concat_values_update:
  "set (concat (map snd (AList.update k v al))) \<subseteq> set v \<union> set (concat (map snd al))"
  by (induction al) auto

lemma map_of_values: "map_of d k = Some items \<Longrightarrow> set items \<subseteq> set (concat (map snd d))"
  by (induction d) (auto split: if_splits)

lemma set_push_item:
  "set (concat (map snd (push_item k item d))) \<subseteq> insert item (set (concat (map snd d)))"
proof (cases "map_of d k")
  case None
  then have "push_item k item d = AList.update k [item] d"
    by (simp add: push_item_def)
  then show ?thesis
    using set_concat_values_update[of k "[item]" d] by auto
next
  case (Some items)
  then have p: "push_item k item d = AList.update k (items @ [item]) d"
    by (simp add: push_item_def)
  have "set items \<subseteq> set (concat (map snd d))"
    using Some by (rule map_of_values)
  then have "set (items @ [item]) \<union> set (concat (map snd d))
               \<subseteq> insert item (set (concat (map snd d)))"
    by auto
  with set_concat_values_update[of k "items @ [item]" d] show ?thesis
    unfolding p by (rule subset_trans)
qed

lemma set_foldl_push_item:
  "set (concat (map snd (foldl (\<lambda>d k. push_item k item d) d ks)))
     \<subseteq> insert item (set (concat (map snd d)))"
proof (induction ks arbitrary: d)
  case Nil
  show ?case by auto
next
  case (Cons k ks)
  have "set (concat (map snd (foldl (\<lambda>d k. push_item k item d) (push_item k item d) ks)))
          \<subseteq> insert item (set (concat (map snd (push_item k item d))))"
    by (rule Cons.IH)
  also have "\<dots> \<subseteq> insert item (set (concat (map snd d)))"
    using set_push_item[of k item d] by auto
  finally show ?case by simp
qed

lemma set_backend_items:
  "set (backend_items s) =
     set (map snd (localIndexedDomainObjects s)) \<union>
     set (concat (map snd (localIndexedAnnotationsByDomainObject s))) \<union>
     set (concat (map snd (localIndexedAnnotationsByTag s)))"
  unfolding backend_items_def set_append by (rule Un_assoc[symmetric])

lemma backend_items_localIndexItem:
  assumes "x \<in> set (backend_items (localIndexItem keyStr model s))"
  shows "x \<in> set (backend_items s) \<or> i_keyString x = keyStr"
proof (cases "type model = ''annotation''")
  case False
  let ?item = "\<lparr>i_type = type model, i_name = name model, i_keyString = keyStr,
                 i_targets = None, i_tags = None\<rparr>"
  show ?thesis
  proof (cases "keyStr = ''__proto__''")
  case True
  with False have "localIndexItem keyStr model s = s"
    by (simp add: localIndexItem_def Let_def)
  with assms show ?thesis by simp
  next
  case notProto: False
  define A where "A = set (map snd (localIndexedDomainObjects s))"
  define A' where
    "A' = set (map snd (AList.update keyStr ?item (localIndexedDomainObjects s)))"
  define B where "B = set (concat (map snd (localIndexedAnnotationsByDomainObject s)))"
  define C where "C = set (concat (map snd (localIndexedAnnotationsByTag s)))"
  have eq: "localIndexItem keyStr model s
          = s\<lparr>localIndexedDomainObjects :=
                AList.update keyStr ?item (localIndexedDomainObjects s)\<rparr>"
    using False notProto by (simp add: localIndexItem_def Let_def)
  have new: "set (backend_items (localIndexItem keyStr model s)) = A' \<union> B \<union> C"
    unfolding eq set_backend_items A'_def B_def C_def by simp
  have old: "set (backend_items s) = A \<union> B \<union> C"
    unfolding set_backend_items A_def B_def C_def ..
  have sub: "A' \<subseteq> insert ?item A"
    unfolding A'_def A_def by (rule set_values_update)
  from assms new sub old have "x = ?item \<or> x \<in> set (backend_items s)" by blast
  moreover have "i_keyString ?item = keyStr" by simp
  ultimately show ?thesis by metis
  qed
next
  case True
  let ?item = "\<lparr>i_type = type model, i_name = name model, i_keyString = keyStr,
                 i_targets = targets model, i_tags = tags model\<rparr>"
  define byObject where "byObject =
     (case targets model of
        None \<Rightarrow> localIndexedAnnotationsByDomainObject s
      | Some ts \<Rightarrow> foldl (\<lambda>d k. push_item k ?item d)
                    (localIndexedAnnotationsByDomainObject s) (Object_keys ts))"
  define byTag where "byTag =
     (case tags model of
        None \<Rightarrow> localIndexedAnnotationsByTag s
      | Some tagIDs \<Rightarrow> foldl (\<lambda>d k. push_item k ?item d)
                        (localIndexedAnnotationsByTag s) tagIDs)"
  define A where "A = set (map snd (localIndexedDomainObjects s))"
  define B where "B = set (concat (map snd (localIndexedAnnotationsByDomainObject s)))"
  define C where "C = set (concat (map snd (localIndexedAnnotationsByTag s)))"
  define B' where "B' = set (concat (map snd byObject))"
  define C' where "C' = set (concat (map snd byTag))"
  have eq: "localIndexItem keyStr model s
          = s\<lparr>localIndexedAnnotationsByDomainObject := byObject,
               localIndexedAnnotationsByTag := byTag\<rparr>"
    using True
    by (cases "targets model"; cases "tags model")
       (simp_all add: localIndexItem_def Let_def byObject_def byTag_def)
  have o: "B' \<subseteq> insert ?item B"
  proof (cases "targets model")
    case None
    then show ?thesis by (auto simp: B'_def B_def byObject_def)
  next
    case (Some ts)
    then have b: "byObject = foldl (\<lambda>d k. push_item k ?item d)
                    (localIndexedAnnotationsByDomainObject s) (Object_keys ts)"
      by (simp add: byObject_def)
    show ?thesis unfolding B'_def B_def b by (rule set_foldl_push_item)
  qed
  have g: "C' \<subseteq> insert ?item C"
  proof (cases "tags model")
    case None
    then show ?thesis by (auto simp: C'_def C_def byTag_def)
  next
    case (Some tagIDs)
    then have b: "byTag = foldl (\<lambda>d k. push_item k ?item d)
                        (localIndexedAnnotationsByTag s) tagIDs"
      by (simp add: byTag_def)
    show ?thesis unfolding C'_def C_def b by (rule set_foldl_push_item)
  qed
  have new: "set (backend_items (localIndexItem keyStr model s)) = A \<union> B' \<union> C'"
    unfolding eq set_backend_items A_def B'_def C'_def by simp
  have old: "set (backend_items s) = A \<union> B \<union> C"
    unfolding set_backend_items A_def B_def C_def ..
  from assms new o g old have "x = ?item \<or> x \<in> set (backend_items s)" by blast
  moreover have "i_keyString ?item = keyStr" by simp
  ultimately show ?thesis by metis
qed

lemma backend_items_cong:
  "index_fields s' = index_fields s \<Longrightarrow> backend_items s' = backend_items s"
  by (simp add: index_fields_def backend_items_def)

lemma no_root_cong: "index_fields s' = index_fields s \<Longrightarrow> no_root s' = no_root s"
  using backend_items_cong[of s' s] by (simp add: no_root_def)

lemma index_fields_beginIndexRequest_indexed [simp]:
  "index_fields (beginIndexRequest_indexed keyStr indexed s) = index_fields s"
  by (simp add: beginIndexRequest_indexed_def setTimeout_def index_fields_def
      split: settled.splits)

lemma index_fields_timeoutCallback [simp]:
  "index_fields (timeoutCallback s) = index_fields s"
  by (simp add: timeoutCallback_def) (simp add: index_fields_def)

lemma backend_items_index:
  assumes "x \<in> set (backend_items (index_begin om domainObject s))"
  shows "x \<in> set (backend_items s) \<or> i_keyString x \<noteq> ''ROOT''"
proof -
  define k where "k = makeKeyString om (ident domainObject)"
  define s1 where "s1 = (if \<not> truthy_at (indexedIds s) k
             then s\<lparr>indexedIds := insert k (indexedIds s),
                    indexedCompositions := insert k (indexedCompositions s)\<rparr>
             else s)"
  have s1: "backend_items s1 = backend_items s"
    by (simp add: s1_def backend_items_def)
  have idx: "index_begin om domainObject s =
      (if k \<noteq> ''ROOT''
       then (if worker s1 \<noteq> None
             then s1\<lparr>posted := posted s1 @ [IndexRequest domainObject k]\<rparr>
             else localIndexItem k domainObject s1)
       else s1)"
    by (simp add: index_begin_def Let_def k_def s1_def)
  show ?thesis
  proof (cases "k \<noteq> ''ROOT'' \<and> worker s1 = None")
    case True
    then have "index_begin om domainObject s = localIndexItem k domainObject s1"
      by (simp add: idx)
    with assms have "x \<in> set (backend_items (localIndexItem k domainObject s1))"
      by simp
    then have "x \<in> set (backend_items s1) \<or> i_keyString x = k"
      by (rule backend_items_localIndexItem)
    then show ?thesis using True by (auto simp only: s1)
  next
    case False
    have "backend_items (s1\<lparr>posted := p\<rparr>) = backend_items s1" for p
      by (simp add: backend_items_def)
    with False have "backend_items (index_begin om domainObject s) = backend_items s1"
      by (auto simp: idx)
    with assms show ?thesis by (simp only: s1) simp
  qed
qed

lemma no_root_index:
  assumes "no_root s"
  shows "no_root (index_begin om domainObject s)"
proof -
  have "i_keyString x \<noteq> ''ROOT''" if "x \<in> set (backend_items (index_begin om domainObject s))" for x
  proof (cases "x \<in> set (backend_items s)")
    case True
    with assms show ?thesis by (simp add: no_root_def list_all_iff)
  next
    case False
    with that backend_items_index[of x om domainObject s] show ?thesis by simp
  qed
  then show ?thesis by (simp add: no_root_def list_all_iff)
qed

lemma no_root_beginIndexRequest_fetched:
  assumes "no_root s"
  shows "no_root (beginIndexRequest_fetched om keyStr fetched s)"
proof (cases fetched)
  case Rejected
  then have "index_fields (beginIndexRequest_fetched om keyStr fetched s) = index_fields s"
    by (simp add: beginIndexRequest_fetched_def index_fields_def)
  from no_root_cong[OF this] assms show ?thesis by simp
next
  case (Resolved domainObject)
  let ?s1 = "s\<lparr>fetching := remove1 keyStr (fetching s),
                pendingIndex := pendingIndex s - {keyStr}\<rparr>"
  have s1: "no_root ?s1"
    using assms by (simp add: no_root_def backend_items_def)
  show ?thesis
  proof (cases domainObject)
    case None
    have "index_fields (setTimeout ?s1) = index_fields ?s1"
      by (simp add: setTimeout_def index_fields_def)
    from no_root_cong[OF this] s1 have "no_root (setTimeout ?s1)" by simp
    with Resolved None show ?thesis by (simp add: beginIndexRequest_fetched_def)
  next
    case (Some obj)
    have "index_fields ((index_begin om obj ?s1)\<lparr>indexing := indexing ?s1 + 1\<rparr>)
            = index_fields (index_begin om obj ?s1)"
      by (simp add: index_fields_def)
    from no_root_cong[OF this] no_root_index[OF s1, of om obj]
    have "no_root ((index_begin om obj ?s1)\<lparr>indexing := indexing ?s1 + 1\<rparr>)"
      by simp
    with Resolved Some show ?thesis by (simp add: beginIndexRequest_fetched_def)
  qed
qed

lemma no_root_onCompositionMutation_fetched:
  assumes "no_root s"
  shows "no_root (onCompositionMutation_fetched om i fetched s)"
proof -
  let ?s1 = "s\<lparr>directFetches := remove1 i (directFetches s)\<rparr>"
  have s1: "no_root ?s1" using assms by (simp add: no_root_def backend_items_def)
  then have "no_root (index_begin om obj ?s1)" for obj by (rule no_root_index)
  with s1 show ?thesis
    by (simp add: onCompositionMutation_fetched_def Let_def split: settled.splits option.splits)
qed

lemma reachable_no_root: "reachable om s \<Longrightarrow> no_root s"
proof (induction rule: reachable.induct)
  case r_constructor
  show ?case by (simp add: no_root_def backend_items_def constructor_def)
next
  case (r_start s)
  then show ?case by (simp only: no_root_cong[OF index_fields_startIndexing])
next
  case (r_schedule s i)
  then show ?case by (simp only: no_root_cong[OF index_fields_scheduleForIndexing])
next
  case (r_fetched s keyStr fetched)
  then show ?case by (simp add: no_root_beginIndexRequest_fetched)
next
  case (r_loaded s children)
  then show ?case by (simp only: no_root_cong[OF index_fields_index_loaded])
next
  case (r_indexed s keyStr indexed)
  then show ?case by (simp only: no_root_cong[OF index_fields_beginIndexRequest_indexed])
next
  case (r_timeout s)
  then show ?case by (simp only: no_root_cong[OF index_fields_timeoutCallback])
next
  case (r_name s domainObject newName)
  then show ?case by (simp add: onNameMutation_def no_root_index)
next
  case (r_composition s domainObject newComposition s')
  then show ?case by (simp only: no_root_cong[OF index_fields_onCompositionMutation])
next
  case (r_composition_fetched s i fetched)
  then show ?case by (simp add: no_root_onCompositionMutation_fetched)
next
  case (r_searchForObjects s queryId input maxResults)
  then show ?case by (simp only: no_root_cong[OF index_fields_searches(1)])
next
  case (r_searchForAnnotations s queryId input maxResults)
  then show ?case by (simp only: no_root_cong[OF index_fields_searches(2)])
next
  case (r_searchForTags s queryId tagKeys maxResults)
  then show ?case by (simp only: no_root_cong[OF index_fields_searches(3)])
qed

lemma grows_refl: "grows s s"
  by (simp add: grows_def)

lemma grows_trans: "grows s s' \<Longrightarrow> grows s' s'' \<Longrightarrow> grows s s''"
  unfolding grows_def by blast

lemma grows_scheduleForIndexing: "grows s (scheduleForIndexing om identifier s)"
proof -
  have "indexedIds (scheduleForIndexing om identifier s) = indexedIds s"
    by (simp add: scheduleForIndexing_unfold keepIndexing_frame enqueued_def)
  then show ?thesis
    unfolding grows_def scheduleForIndexing_queue scheduleForIndexing_pendingIndex
    by auto
qed

lemma grows_index_loaded: "grows s (index_loaded om children s)"
proof -
  have "grows s s' \<Longrightarrow> grows s (index_loaded om children s')" for s'
    unfolding index_loaded_def
  proof (induction children arbitrary: s')
    case Nil
    then show ?case by simp
  next
    case (Cons c cs)
    have "grows s (scheduleForIndexing om (ident c) s')"
      using Cons.prems grows_scheduleForIndexing by (rule grows_trans)
    then show ?case using Cons.IH by simp
  qed
  then show ?thesis using grows_refl .
qed

lemma not_shouldEnqueue_grows:
  "grows s s' \<Longrightarrow> \<not> shouldEnqueue om identifier s \<Longrightarrow> \<not> shouldEnqueue om identifier s'"
  unfolding grows_def shouldEnqueue_def truthy_at_def by blast

lemma not_shouldEnqueue_index_loaded:
  "c \<in> set children \<Longrightarrow> \<not> shouldEnqueue om (ident c) (index_loaded om children s)"
proof (induction children arbitrary: s)
  case Nil
  then show ?case by simp
next
  case (Cons d ds)
  have step: "index_loaded om (d # ds) s = index_loaded om ds (scheduleForIndexing om (ident d) s)"
    by (simp add: index_loaded_def)
  show ?case
  proof (cases "c \<in> set ds")
    case True
    then show ?thesis unfolding step by (rule Cons.IH)
  next
    case False
    with Cons.prems have "c = d" by simp
    then have "\<not> shouldEnqueue om (ident c) (scheduleForIndexing om (ident d) s)"
      by (simp add: not_shouldEnqueue_after)
    with grows_index_loaded show ?thesis unfolding step by (rule not_shouldEnqueue_grows)
  qed
qed

lemma index_loaded_queues:
  assumes "c \<in> set children" and "shouldEnqueue om (ident c) s"
  shows "makeKeyString om (ident c) \<in>
           set (fetching (index_loaded om children s) @ idsToIndex (index_loaded om children s))"
proof -
  let ?s' = "index_loaded om children s"
  have g: "grows s ?s'" by (rule grows_index_loaded)
  have n: "\<not> shouldEnqueue om (ident c) ?s'"
    using assms(1) by (rule not_shouldEnqueue_index_loaded)
  have "makeKeyString om (ident c) \<in> pendingIndex ?s' - pendingIndex s"
    using g n assms(2) unfolding grows_def shouldEnqueue_def truthy_at_def by auto
  with g show ?thesis unfolding grows_def by blast
qed

lemma index_root:
  assumes "makeKeyString om (ident domainObject) = ''ROOT''"
  shows "index_begin om domainObject s =
           (if ''ROOT'' \<in> indexedIds s then s
            else s\<lparr>indexedIds := insert ''ROOT'' (indexedIds s),
                   indexedCompositions := insert ''ROOT'' (indexedCompositions s)\<rparr>)"
  using assms by (simp add: index_begin_def Let_def)

lemma example_index_root:
  "index_begin example_openmct (rootObject example_openmct) constructor
     = constructor\<lparr>indexedIds := {''ROOT''}, indexedCompositions := {''ROOT''}\<rparr>"
  by (simp add: index_begin_def example_openmct_def example_object_def example_keyString_def
      constructor_def Let_def)

lemma objects_message_items:
  "set (m_results (localSearchForObjects_message queryId searchInput maxResults s))
     \<subseteq> Some ` set (backend_items s)"
proof -
  have "set (slice0 maxResults xs) \<subseteq> set xs" for xs :: "indexedItem list"
    by (auto simp: slice0_def dest: in_set_takeD)
  then have "set (slice0 maxResults (filter P (Object_values (localIndexedDomainObjects s))))
        \<subseteq> set (backend_items s)" for P
    unfolding set_backend_items by fastforce
  then show ?thesis
    by (auto simp: localSearchForObjects_message_def Let_def)
qed

lemma index_split:
  "index om domainObject loaded s =
     (case loaded of
        NoComposition \<Rightarrow> (Resolved (), index_begin om domainObject s)
      | LoadRejected \<Rightarrow> (Rejected, index_begin om domainObject s)
      | Loaded children \<Rightarrow>
          (Resolved (), index_loaded om children (index_begin om domainObject s)))"
  by (cases loaded)
     (simp_all only: index_def index_begin_def index_loaded_def Let_def loadResult.case)

lemma posted_scheduleForIndexing [simp]:
  "posted (scheduleForIndexing om identifier s) = posted s"
  by (simp add: scheduleForIndexing_unfold keepIndexing_frame enqueued_def)

lemma posted_index_loaded [simp]: "posted (index_loaded om children s) = posted s"
  unfolding index_loaded_def
  by (rule foldl_unchanged[where g = posted]) simp

lemma indexedIds_index_loaded [simp]:
  "indexedIds (index_loaded om children s) = indexedIds s"
  using grows_index_loaded[of s om children] by (simp add: grows_def)

lemma index_root_whole:
  assumes "makeKeyString om (ident domainObject) = ''ROOT''"
  shows "index_fields (snd (index om domainObject loaded s)) = index_fields s"
    and "posted (snd (index om domainObject loaded s)) = posted s"
    and "''ROOT'' \<in> indexedIds (snd (index om domainObject loaded s))"
  by (simp_all add: index_split index_root[OF assms] index_fields_def[of "s\<lparr>indexedIds := a, indexedCompositions := b\<rparr>" for a b] index_fields_def[of s]
      split: loadResult.splits)

lemma shouldEnqueue_index_root:
  assumes "makeKeyString om (ident domainObject) = ''ROOT''"
    and "makeKeyString om identifier \<noteq> ''ROOT''"
  shows "shouldEnqueue om identifier (index_begin om domainObject s)
           = shouldEnqueue om identifier s"
  using assms(2) by (simp add: index_root[OF assms(1)] shouldEnqueue_def truthy_at_def)

lemma example_index_root_loaded:
  "index example_openmct (rootObject example_openmct) (Loaded (example_children 2)) constructor
     = (Resolved (),
        constructor\<lparr>indexedIds := {''ROOT''}, indexedCompositions := {''ROOT''},
          pendingIndex := {''a'', ''aa''}, pendingRequests := 2,
          fetching := [''a'', ''aa'']\<rparr>)"
  by (simp add: index_split example_index_root)
     (simp add: index_loaded_def example_children_def example_object_def
      scheduleForIndexing_def example_openmct_def example_keyString_def constructor_def
      keepIndexing.simps beginIndexRequest_def MAX_CONCURRENT_REQUESTS_def Let_def
      upt_rec numeral_2_eq_2 insert_commute object_eval)

lemma startsWith_iff: "startsWith hay needle = (\<exists>vs. hay = needle @ vs)"
  by (induction hay needle rule: startsWith.induct) auto

lemma includes_str_contains: "includes_str hay needle = contains hay needle"
proof (induction hay)
  case Nil
  show ?case by (auto simp: contains_def)
next
  case (Cons x xs)
  have "contains (x # xs) needle = (startsWith (x # xs) needle \<or> contains xs needle)"
  proof
    assume "contains (x # xs) needle"
    then obtain us vs where e: "x # xs = us @ needle @ vs" by (auto simp: contains_def)
    show "startsWith (x # xs) needle \<or> contains xs needle"
    proof (cases us)
      case Nil
      with e show ?thesis by (auto simp: startsWith_iff)
    next
      case (Cons u us')
      with e have "xs = us' @ needle @ vs" by simp
      then show ?thesis by (auto simp: contains_def)
    qed
  next
    assume "startsWith (x # xs) needle \<or> contains xs needle"
    then show "contains (x # xs) needle"
    proof
      assume "startsWith (x # xs) needle"
      then obtain vs where "x # xs = [] @ needle @ vs" by (auto simp: startsWith_iff)
      then show ?thesis unfolding contains_def by blast
    next
      assume "contains xs needle"
      then obtain us vs where "xs = us @ needle @ vs" by (auto simp: contains_def)
      then have "x # xs = (x # us) @ needle @ vs" by simp
      then show ?thesis unfolding contains_def by blast
    qed
  qed
  with Cons show ?case by simp
qed

lemma slice0_nonneg: "0 \<le> e \<Longrightarrow> slice0 e xs = take (nat e) xs"
  by (simp add: slice0_def)

lemma effectiveMaxResults_nonneg:
  "(case maxResults of None \<Rightarrow> True | Some n \<Rightarrow> 0 \<le> n) \<Longrightarrow> 0 \<le> effectiveMaxResults maxResults"
  by (simp add: effectiveMaxResults_def DEFAULT_MAX_RESULTS_def split: option.splits)

lemma example_indexed_eq:
  "example_indexed = constructor\<lparr>indexedIds := {''a''}, indexedCompositions := {''a''},
     localIndexedDomainObjects :=
       [(''a'', \<lparr>i_type = ''folder'', i_name = ''a'', i_keyString = ''a'',
                 i_targets = None, i_tags = None\<rparr>)]\<rparr>"
  by (simp add: example_indexed_def index_begin_def localIndexItem_def example_openmct_def
      example_object_def example_keyString_def constructor_def Let_def object_eval)

lemma example_strings:
  "toLowerCase (trim '' a'') = ''a''" "toLowerCase ''a'' = ''a''" "toLowerCase '' a'' = '' a''"
  "trim ''a'' = ''a''"
  by (simp_all add: toLowerCase_def toLowerCase_char_def trim_def isWhiteSpace_def)

lemma objects_message:
  assumes "0 \<le> m"
  shows "localSearchForObjects_message queryId input m s =
     \<lparr>m_request = ''searchForObjects'',
      m_results = map Some (take (nat m)
        (filter (\<lambda>item. contains (toLowerCase (i_name item)) (toLowerCase (trim input)))
           (Object_values (localIndexedDomainObjects s)))),
      m_total = length
        (filter (\<lambda>item. contains (toLowerCase (i_name item)) (toLowerCase (trim input)))
           (Object_values (localIndexedDomainObjects s))),
      m_queryId = queryId\<rparr>"
  using assms
  by (simp add: localSearchForObjects_message_def Let_def slice0_nonneg includes_str_contains)

lemma example_strings2:
  "toLowerCase (trim ''A'') = ''a''"
  by code_simp

lemma example_search:
  "searchForObjects example_openmct ''q1'' '' a'' (Some 10) example_indexed
     = (ResolvedWith \<lparr>total = 1, hits = [Some (example_object ''a'' ''a'')]\<rparr>, example_indexed)"
  "searchForObjects example_openmct ''q1'' ''a'' (Some 0) example_indexed
     = (ResolvedWith \<lparr>total = 1, hits = [Some (example_object ''a'' ''a'')]\<rparr>, example_indexed)"
  by (simp_all add: example_indexed_eq searchForObjects_def search_def localSearchForObjects_def
      localSearchForObjects_message_def onWorkerMessage_def hydrate_def slice0_def
      example_strings DEFAULT_MAX_RESULTS_def Let_def constructor_def example_openmct_def
      object_eval)

lemma example_four_eq:
  "example_four = constructor\<lparr>indexedIds := {''b'', ''10'', ''2'', ''c''},
     indexedCompositions := {''b'', ''10'', ''2'', ''c''},
     localIndexedDomainObjects :=
       [(''b'', \<lparr>i_type = ''folder'', i_name = ''ab'', i_keyString = ''b'',
                 i_targets = None, i_tags = None\<rparr>),
        (''10'', \<lparr>i_type = ''folder'', i_name = ''A10'', i_keyString = ''10'',
                  i_targets = None, i_tags = None\<rparr>),
        (''2'', \<lparr>i_type = ''folder'', i_name = ''a2'', i_keyString = ''2'',
                 i_targets = None, i_tags = None\<rparr>),
        (''c'', \<lparr>i_type = ''folder'', i_name = ''zzz'', i_keyString = ''c'',
                 i_targets = None, i_tags = None\<rparr>)]\<rparr>"
  by (simp add: example_four_def index_begin_def localIndexItem_def example_openmct_def
      example_object_def example_keyString_def constructor_def Let_def object_eval
      insert_commute)

lemma example_four_values:
  "Object_values (localIndexedDomainObjects example_four) =
     [\<lparr>i_type = ''folder'', i_name = ''a2'', i_keyString = ''2'',
       i_targets = None, i_tags = None\<rparr>,
      \<lparr>i_type = ''folder'', i_name = ''A10'', i_keyString = ''10'',
       i_targets = None, i_tags = None\<rparr>,
      \<lparr>i_type = ''folder'', i_name = ''ab'', i_keyString = ''b'',
       i_targets = None, i_tags = None\<rparr>,
      \<lparr>i_type = ''folder'', i_name = ''zzz'', i_keyString = ''c'',
       i_targets = None, i_tags = None\<rparr>]"
  by (simp add: example_four_eq Object_values_def isArrayIndex_def isDigit_def
      decimal_value_def)

lemma example_strings4:
  "toLowerCase (trim '' A '') = ''a''" "toLowerCase ''A10'' = ''a10''"
  "toLowerCase ''a2'' = ''a2''" "toLowerCase ''ab'' = ''ab''" "toLowerCase ''zzz'' = ''zzz''"
  by code_simp+

lemma example_includes4:
  "includes_str ''a2'' ''a''" "includes_str ''a10'' ''a''" "includes_str ''ab'' ''a''"
  "\<not> includes_str ''zzz'' ''a''"
  by simp_all

lemma localIndexItem_primary:
  "localIndexedDomainObjects (localIndexItem keyStr model s) =
     (if type model = ''annotation'' \<or> keyStr = ''__proto__''
      then localIndexedDomainObjects s
      else AList.update keyStr
             \<lparr>i_type = type model, i_name = name model, i_keyString = keyStr,
              i_targets = None, i_tags = None\<rparr>
             (localIndexedDomainObjects s))"
  by (simp add: localIndexItem_def Let_def split: option.splits)

section \<open>Properties of the specification\<close>

text \<open>
  C1. \<open>create\<close> throws \<open>Unknown annotation type\<close> exactly when the type is one of the
  names of the keys of \<open>ANNOTATION_TYPES\<close>: an unknown type such as \<open>bogus\<close> passes the
  check and the annotation is saved, while \<open>NOTEBOOK\<close> is rejected.
\<close>

theorem C1_unknown_type_not_rejected:
  "create ''uuid'' ''path'' True ''note'' (example_object ''a'' ''A'') ''bogus'' (Some [])
     ''text'' [(''a'', \<lparr>entryId = None\<rparr>)]
   = Inr \<lparr>ident = \<lparr>namespace = [], key = ''uuid''\<rparr>, type = ''annotation'', name = ''note'',
          composition = None, targets = Some [(''a'', \<lparr>entryId = None\<rparr>)], tags = Some [],
          annotationType = ''bogus'', contentText = ''text'', originalContextPath = ''path'',
          location = ''path''\<rparr> \<and>
   create ''uuid'' ''path'' True ''note'' (example_object ''a'' ''A'') ''NOTEBOOK'' (Some [])
     ''text'' [(''a'', \<lparr>entryId = None\<rparr>)]
   = Inl (Error ''Unknown annotation type: NOTEBOOK'') \<and>
   (create uuid contextPath success newName domainObject newType newTags newText newTargets
      = Inl (Error (''Unknown annotation type: '' @ newType)))
   = (newType \<in> {''NOTEBOOK'', ''GEOSPATIAL'', ''PIXEL_SPATIAL'', ''TEMPORAL'', ''PLOT_SPATIAL''})"
  unfolding create_unknown_type_iff
  by (simp add: create_def ANNOTATION_TYPES_def example_object_def)

text \<open>
  C2. One identifier is scheduled and its fetch is rejected: no warning is logged, the key
  string stays in \<open>pendingIndex\<close>, \<open>pendingRequests\<close> stays at 1 and no timer is set. (A
  rejected \<open>index\<close> call, in contrast, is logged, and the timer's callback brings the
  counter back to 0.)
\<close>

theorem C2_fetch_failure_not_handled:
  "beginIndexRequest_fetched example_openmct ''a'' Rejected
     (scheduleForIndexing example_openmct \<lparr>namespace = [], key = ''a''\<rparr> constructor)
   = constructor\<lparr>pendingIndex := {''a''}, pendingRequests := 1\<rparr> \<and>
   warnings (constructor\<lparr>pendingIndex := {''a''}, pendingRequests := 1\<rparr>) = [] \<and>
   timers (constructor\<lparr>pendingIndex := {''a''}, pendingRequests := 1\<rparr>) = 0 \<and>
   timeoutCallback (beginIndexRequest_indexed ''a'' Rejected
     (constructor\<lparr>pendingRequests := 1, indexing := 1\<rparr>))
   = constructor\<lparr>warnings := [''Failed to index domain object a'']\<rparr>"
proof -
  have a: "beginIndexRequest_fetched example_openmct ''a'' Rejected
     (scheduleForIndexing example_openmct \<lparr>namespace = [], key = ''a''\<rparr> constructor)
   = constructor\<lparr>pendingIndex := {''a''}, pendingRequests := 1\<rparr>"
    by (simp add: example_schedule beginIndexRequest_fetched_def) (simp add: constructor_def)
  have b: "timeoutCallback (beginIndexRequest_indexed ''a'' Rejected
     (constructor\<lparr>pendingRequests := 1, indexing := 1\<rparr>))
   = constructor\<lparr>warnings := [''Failed to index domain object a'']\<rparr>"
    by (simp add: timeoutCallback_def beginIndexRequest_indexed_def setTimeout_def
        constructor_def keepIndexing.simps MAX_CONCURRENT_REQUESTS_def)
  show ?thesis
    by (simp only: a b simp_thms) (simp add: constructor_def)
qed

text \<open>
  C3. In every reachable state the counter \<open>pendingRequests\<close> is at most
  \<open>MAX_CONCURRENT_REQUESTS = 100\<close>, and the fetch+index operations really in flight
  (awaited fetches, awaited \<open>index\<close> calls, timers not yet run) are at most the counter;
  identifiers wait in the queue only while the counter is at the ceiling.
  \<open>keepIndexing\<close>, on any state \<open>t\<close>, admits exactly the first \<open>admitted t\<close> identifiers of
  the queue, in queue order, and leaves the others queued in their order; an identifier
  is enqueued at the back.
\<close>

theorem C3_concurrency_ceiling:
  assumes "reachable om s"
  shows "MAX_CONCURRENT_REQUESTS = 100 \<and>
         pendingRequests s \<le> MAX_CONCURRENT_REQUESTS \<and>
         int (inFlight s) \<le> pendingRequests s \<and>
         (idsToIndex s = [] \<or> pendingRequests s = MAX_CONCURRENT_REQUESTS) \<and>
         keepIndexing t =
           t\<lparr>idsToIndex := drop (admitted t) (idsToIndex t),
             pendingRequests := pendingRequests t + int (admitted t),
             fetching := fetching t @ take (admitted t) (idsToIndex t)\<rparr> \<and>
         idsToIndex (enqueued keyStr t) = idsToIndex t @ [keyStr]"
proof -
  have inv: "scheduler_inv s" using assms by (rule reachable_scheduler_inv)
  have "keepIndexing t =
           t\<lparr>idsToIndex := drop (admitted t) (idsToIndex t),
             pendingRequests := pendingRequests t + int (admitted t),
             fetching := fetching t @ take (admitted t) (idsToIndex t)\<rparr>"
    by (rule keepIndexing_closed)
  moreover have "idsToIndex (enqueued keyStr t) = idsToIndex t @ [keyStr]"
    by (simp add: enqueued_def)
  moreover have "MAX_CONCURRENT_REQUESTS = 100"
    by (simp add: MAX_CONCURRENT_REQUESTS_def)
  moreover have "pendingRequests s \<le> MAX_CONCURRENT_REQUESTS"
    and "int (inFlight s) \<le> pendingRequests s"
    using inv by (simp_all add: scheduler_inv_def)
  moreover have "idsToIndex s = [] \<or> pendingRequests s = MAX_CONCURRENT_REQUESTS"
    using inv by (auto simp: scheduler_inv_def quiescent_def)
  ultimately show ?thesis by blast
qed

theorem C3_concurrency_ceiling_witness:
  "reachable example_openmct (index_loaded example_openmct (example_children 2) constructor) \<and>
   pendingRequests (index_loaded example_openmct (example_children 2) constructor) = 2 \<and>
   inFlight (index_loaded example_openmct (example_children 2) constructor) = 2 \<and>
   keepIndexing (constructor\<lparr>idsToIndex := [''a'', ''b'', ''c''], pendingRequests := 98\<rparr>)
     = constructor\<lparr>idsToIndex := [''c''], pendingRequests := 100, fetching := [''a'', ''b'']\<rparr>"
proof -
  let ?s = "index_loaded example_openmct (example_children 2) constructor"
  let ?t = "constructor\<lparr>idsToIndex := [''a'', ''b'', ''c''], pendingRequests := 98\<rparr>"
  have r: "reachable example_openmct ?s"
    by (rule r_loaded[OF r_constructor])
  note c3 = C3_concurrency_ceiling[OF r, of ?t]
  from c3 have "keepIndexing ?t =
       ?t\<lparr>idsToIndex := drop (admitted ?t) (idsToIndex ?t),
          pendingRequests := pendingRequests ?t + int (admitted ?t),
          fetching := fetching ?t @ take (admitted ?t) (idsToIndex ?t)\<rparr>"
    by (simp only: simp_thms)
  then have k: "keepIndexing ?t
     = constructor\<lparr>idsToIndex := [''c''], pendingRequests := 100, fetching := [''a'', ''b'']\<rparr>"
    by (simp add: example_admitted) (simp add: constructor_def)
  have "inFlight ?s = 2"
    by (simp add: example_loaded inFlight_def) (simp add: constructor_def)
  moreover have "pendingRequests ?s = 2"
    by (simp add: example_loaded)
  ultimately show ?thesis using r k by simp
qed




text \<open>
  C5. \<open>index\<close> of an object whose key string is \<open>ROOT\<close>, whatever its composition gives:
  the observers are registered, but neither the worker nor any of the three local indices
  changes, and nothing is posted. When the composition loads, \<open>index\<close> is the registration
  of the observers followed by \<open>scheduleForIndexing\<close> of every child in turn, and its
  promise resolves; afterwards no child is left to be enqueued, and every child that was
  to be enqueued before (key string not \<open>ROOT\<close>, neither indexed nor pending nor an
  inherited name, no native search) is queued or being fetched. In every reachable state
  no entry of the local indices has the key string \<open>ROOT\<close>, and every result of a name
  search is a defined entry with another key string.
\<close>

theorem C5_root_not_indexed:
  assumes "makeKeyString om (ident domainObject) = ''ROOT''"
  shows "index_fields (snd (index om domainObject loaded s)) = index_fields s \<and>
         posted (snd (index om domainObject loaded s)) = posted s \<and>
         ''ROOT'' \<in> indexedIds (snd (index om domainObject loaded s)) \<and>
         index om domainObject (Loaded children) s
           = (Resolved (),
              foldl (\<lambda>s child. scheduleForIndexing om (ident child) s)
                (if ''ROOT'' \<in> indexedIds s then s
                 else s\<lparr>indexedIds := insert ''ROOT'' (indexedIds s),
                        indexedCompositions := insert ''ROOT'' (indexedCompositions s)\<rparr>)
                children) \<and>
         (\<forall>child \<in> set children.
            \<not> shouldEnqueue om (ident child) (snd (index om domainObject (Loaded children) s)) \<and>
            (shouldEnqueue om (ident child) s \<and> makeKeyString om (ident child) \<noteq> ''ROOT'' \<longrightarrow>
               makeKeyString om (ident child) \<in>
                 set (fetching (snd (index om domainObject (Loaded children) s)) @
                      idsToIndex (snd (index om domainObject (Loaded children) s))))) \<and>
         (reachable om t \<longrightarrow>
            list_all (\<lambda>item. i_keyString item \<noteq> ''ROOT'') (backend_items t) \<and>
            None \<notin> set (m_results (localSearchForObjects_message queryId searchInput maxResults t)) \<and>
            (\<forall>item. Some item \<in> set (m_results (localSearchForObjects_message queryId searchInput maxResults t))
               \<longrightarrow> i_keyString item \<noteq> ''ROOT''))"
proof -
  let ?b = "index_begin om domainObject s"
  let ?r = "snd (index om domainObject (Loaded children) s)"
  have r: "?r = index_loaded om children ?b"
    by (simp add: index_split)
  have a: "index_fields (snd (index om domainObject loaded s)) = index_fields s"
    and b: "posted (snd (index om domainObject loaded s)) = posted s"
    and c: "''ROOT'' \<in> indexedIds (snd (index om domainObject loaded s))"
    by (rule index_root_whole[OF assms])+
  have w: "index om domainObject (Loaded children) s
           = (Resolved (),
              foldl (\<lambda>s child. scheduleForIndexing om (ident child) s)
                (if ''ROOT'' \<in> indexedIds s then s
                 else s\<lparr>indexedIds := insert ''ROOT'' (indexedIds s),
                        indexedCompositions := insert ''ROOT'' (indexedCompositions s)\<rparr>)
                children)"
    by (simp add: index_split index_root[OF assms] index_loaded_def)
  have d: "\<forall>child \<in> set children.
            \<not> shouldEnqueue om (ident child) ?r \<and>
            (shouldEnqueue om (ident child) s \<and> makeKeyString om (ident child) \<noteq> ''ROOT'' \<longrightarrow>
               makeKeyString om (ident child) \<in> set (fetching ?r @ idsToIndex ?r))"
  proof
    fix child assume mem: "child \<in> set children"
    have n: "\<not> shouldEnqueue om (ident child) ?r"
      unfolding r using mem by (rule not_shouldEnqueue_index_loaded)
    have q: "makeKeyString om (ident child) \<in> set (fetching ?r @ idsToIndex ?r)"
      if "shouldEnqueue om (ident child) s" and "makeKeyString om (ident child) \<noteq> ''ROOT''"
    proof -
      from that have "shouldEnqueue om (ident child) ?b"
        by (simp add: shouldEnqueue_index_root[OF assms])
      with mem show ?thesis unfolding r by (rule index_loaded_queues)
    qed
    from n q show "\<not> shouldEnqueue om (ident child) ?r \<and>
            (shouldEnqueue om (ident child) s \<and> makeKeyString om (ident child) \<noteq> ''ROOT'' \<longrightarrow>
               makeKeyString om (ident child) \<in> set (fetching ?r @ idsToIndex ?r))"
      by blast
  qed
  have e: "reachable om t \<longrightarrow>
            list_all (\<lambda>item. i_keyString item \<noteq> ''ROOT'') (backend_items t) \<and>
            None \<notin> set (m_results (localSearchForObjects_message queryId searchInput maxResults t)) \<and>
            (\<forall>item. Some item \<in> set (m_results (localSearchForObjects_message queryId searchInput maxResults t))
               \<longrightarrow> i_keyString item \<noteq> ''ROOT'')"
  proof
    assume "reachable om t"
    then have n: "list_all (\<lambda>item. i_keyString item \<noteq> ''ROOT'') (backend_items t)"
      using reachable_no_root by (simp add: no_root_def)
    then have "\<And>item. item \<in> set (backend_items t) \<Longrightarrow> i_keyString item \<noteq> ''ROOT''"
      by (simp add: list_all_iff)
    with objects_message_items[of queryId searchInput maxResults t] n
    show "list_all (\<lambda>item. i_keyString item \<noteq> ''ROOT'') (backend_items t) \<and>
            None \<notin> set (m_results (localSearchForObjects_message queryId searchInput maxResults t)) \<and>
            (\<forall>item. Some item \<in> set (m_results (localSearchForObjects_message queryId searchInput maxResults t))
               \<longrightarrow> i_keyString item \<noteq> ''ROOT'')"
      by blast
  qed
  from a b c w d e show ?thesis by (intro conjI)
qed

theorem C5_root_not_indexed_witness:
  "makeKeyString example_openmct (ident (rootObject example_openmct)) = ''ROOT'' \<and>
   example_object ''a'' ''child'' \<in> set (example_children 2) \<and>
   shouldEnqueue example_openmct (ident (example_object ''a'' ''child'')) constructor \<and>
   makeKeyString example_openmct (ident (example_object ''a'' ''child'')) \<noteq> ''ROOT'' \<and>
   index example_openmct (rootObject example_openmct) (Loaded (example_children 2)) constructor
     = (Resolved (),
        constructor\<lparr>indexedIds := {''ROOT''}, indexedCompositions := {''ROOT''},
          pendingIndex := {''a'', ''aa''}, pendingRequests := 2,
          fetching := [''a'', ''aa'']\<rparr>) \<and>
   ''a'' \<in> set (fetching (snd (index example_openmct (rootObject example_openmct)
                                 (Loaded (example_children 2)) constructor))) \<and>
   backend_items (snd (index example_openmct (rootObject example_openmct)
                         (Loaded (example_children 2)) constructor)) = [] \<and>
   reachable example_openmct (index_begin example_openmct (rootObject example_openmct) constructor) \<and>
   backend_items (index_begin example_openmct (rootObject example_openmct) constructor) = []"
proof -
  let ?root = "rootObject example_openmct"
  let ?r = "snd (index example_openmct ?root (Loaded (example_children 2)) constructor)"
  have h: "makeKeyString example_openmct (ident ?root) = ''ROOT''"
    by (simp add: example_openmct_def example_object_def example_keyString_def)
  have r: "reachable example_openmct (index_begin example_openmct ?root constructor)"
    using r_name[OF r_constructor, of example_openmct ?root "name ?root"]
    by (simp add: onNameMutation_def)
  note c5 = C5_root_not_indexed[OF h, of "Loaded (example_children 2)" constructor
      "example_children 2" "index_begin example_openmct ?root constructor"]
  have se: "shouldEnqueue example_openmct (ident (example_object ''a'' ''child'')) constructor"
    by (simp add: shouldEnqueue_def example_openmct_def example_object_def
        example_keyString_def constructor_def object_eval)
  have mem: "example_object ''a'' ''child'' \<in> set (example_children 2)"
    by (simp add: example_children_def upt_rec numeral_2_eq_2)
  have k: "makeKeyString example_openmct (ident (example_object ''a'' ''child'')) = ''a''"
    by (simp add: example_openmct_def example_object_def example_keyString_def)
  have k': "makeKeyString example_openmct (ident (example_object ''a'' ''child'')) \<noteq> ''ROOT''"
    unfolding k by simp
  from c5 mem se k' have "makeKeyString example_openmct (ident (example_object ''a'' ''child''))
      \<in> set (fetching ?r @ idsToIndex ?r)"
    by blast
  then have q: "''a'' \<in> set (fetching ?r)"
    unfolding k by (simp add: example_index_root_loaded)
  from c5 have "index_fields ?r = index_fields constructor" by blast
  from backend_items_cong[OF this] have b1: "backend_items ?r = []"
    by (simp add: backend_items_def constructor_def)
  from c5 r have "list_all (\<lambda>item. i_keyString item \<noteq> ''ROOT'')
      (backend_items (index_begin example_openmct ?root constructor))"
    by blast
  have b2: "backend_items (index_begin example_openmct ?root constructor) = []"
    by (simp add: example_index_root) (simp add: backend_items_def constructor_def)
  from h mem se k' q b1 r b2 example_index_root_loaded show ?thesis by (intro conjI)
qed

text \<open>
  C6. Without a worker and for a result cap that is not negative, name search returns
  exactly the entries of the primary index whose name contains, case-insensitively, the
  input with its leading and trailing white space removed, in the order in which
  \<open>Object.values\<close> enumerates the index (array-index key strings first, ascending, then the
  others as they were inserted), cut to the first \<open>maxResults\<close> entries (to the first 100
  when \<open>maxResults\<close> is missing or 0), while \<open>total\<close> is the number of all matches; the
  query resolves with the hydrated hits when every hit hydrates and stays unresolved
  otherwise. The primary index gets an entry for every indexed object that is not an
  annotation (and whose key string is not \<open>__proto__\<close>), and none for an annotation.
  Names and inputs are strings of code units below 256.
\<close>

theorem C6_name_search:
  assumes "worker s = None"
    and "case maxResults of None \<Rightarrow> True | Some n \<Rightarrow> 0 \<le> n"
  shows "let matches = filter (\<lambda>item. contains (toLowerCase (i_name item))
                                        (toLowerCase (trim input)))
                         (Object_values (localIndexedDomainObjects s));
             limit = (case maxResults of None \<Rightarrow> 100
                      | Some n \<Rightarrow> if n = 0 then 100 else nat n);
             msg = \<lparr>m_request = ''searchForObjects'',
                    m_results = map Some (take limit matches),
                    m_total = length matches, m_queryId = queryId\<rparr>
         in localSearchForObjects_message queryId input (effectiveMaxResults maxResults)
              (s\<lparr>pendingQueries := insert queryId (pendingQueries s)\<rparr>) = msg \<and>
            searchForObjects om queryId input maxResults s
              = onWorkerMessage om msg (s\<lparr>pendingQueries := insert queryId (pendingQueries s)\<rparr>) \<and>
            (case promise_all (map (\<lambda>item. objects_get om (parseKeyString om (i_keyString item)))
                                 (take limit matches)) of
               None \<Rightarrow> fst (searchForObjects om queryId input maxResults s) = Unresolved
             | Some hs \<Rightarrow>
                 searchForObjects om queryId input maxResults s
                   = (ResolvedWith \<lparr>total = length matches, hits = hs\<rparr>,
                      s\<lparr>pendingQueries := pendingQueries s - {queryId}\<rparr>) \<and>
                 length hs = min limit (length matches)) \<and>
            localIndexedDomainObjects (localIndexItem keyStr model u) =
              (if type model = ''annotation'' \<or> keyStr = ''__proto__''
               then localIndexedDomainObjects u
               else AList.update keyStr
                      \<lparr>i_type = type model, i_name = name model, i_keyString = keyStr,
                       i_targets = None, i_tags = None\<rparr>
                      (localIndexedDomainObjects u))"
proof -
  define matches where "matches = filter (\<lambda>item. contains (toLowerCase (i_name item))
                                        (toLowerCase (trim input)))
                         (Object_values (localIndexedDomainObjects s))"
  define limit where "limit = (case maxResults of None \<Rightarrow> 100
                      | Some n \<Rightarrow> if n = 0 then 100 else nat n)"
  define msg where "msg = \<lparr>m_request = ''searchForObjects'',
                    m_results = map Some (take limit matches),
                    m_total = length matches, m_queryId = queryId\<rparr>"
  define s1 where "s1 = s\<lparr>pendingQueries := insert queryId (pendingQueries s)\<rparr>"
  have lim: "nat (effectiveMaxResults maxResults) = limit"
    by (simp add: effectiveMaxResults_def limit_def DEFAULT_MAX_RESULTS_def split: option.splits)
  have nn: "0 \<le> effectiveMaxResults maxResults"
    using assms(2) by (rule effectiveMaxResults_nonneg)
  have m: "localSearchForObjects_message queryId input (effectiveMaxResults maxResults) s1 = msg"
    unfolding objects_message[OF nn] lim msg_def matches_def by (simp add: s1_def)
  have se: "searchForObjects om queryId input maxResults s = onWorkerMessage om msg s1"
    using assms(1) m
    by (simp add: searchForObjects_def search_local localSearchForObjects_def s1_def)
  have hy: "promise_all (map (hydrate om) (m_results msg))
      = promise_all (map (\<lambda>item. objects_get om (parseKeyString om (i_keyString item)))
                       (take limit matches))"
    by (simp add: msg_def hydrate_def comp_def)
  have q: "m_queryId msg \<in> pendingQueries s1" by (simp add: msg_def s1_def)
  have len: "length hs = length ps" if "promise_all ps = Some hs"
    for ps :: "domainObject option settled list" and hs
    using that
  proof (induction ps arbitrary: hs)
    case Nil
    then show ?case by simp
  next
    case (Cons p ps)
    then show ?case by (cases p) (auto split: option.splits)
  qed
  have res: "case promise_all (map (\<lambda>item. objects_get om (parseKeyString om (i_keyString item)))
                                 (take limit matches)) of
               None \<Rightarrow> fst (onWorkerMessage om msg s1) = Unresolved
             | Some hs \<Rightarrow>
                 onWorkerMessage om msg s1
                   = (ResolvedWith \<lparr>total = length matches, hits = hs\<rparr>,
                      s\<lparr>pendingQueries := pendingQueries s - {queryId}\<rparr>) \<and>
                 length hs = min limit (length matches)"
  proof (cases "promise_all (map (\<lambda>item. objects_get om (parseKeyString om (i_keyString item)))
                                 (take limit matches))")
    case None
    then show ?thesis by (simp add: onWorkerMessage_def hy)
  next
    case (Some hs)
    from len[OF Some] have "length hs = min limit (length matches)" by (simp add: min.commute)
    moreover have "onWorkerMessage om msg s1
                   = (ResolvedWith \<lparr>total = length matches, hits = hs\<rparr>,
                      s\<lparr>pendingQueries := pendingQueries s - {queryId}\<rparr>)"
      using Some q by (simp add: onWorkerMessage_def hy) (simp add: msg_def s1_def)
    ultimately show ?thesis using Some by simp
  qed
  from m se res[folded se] localIndexItem_primary[of keyStr model u] show ?thesis
    unfolding Let_def matches_def[symmetric] limit_def[symmetric] msg_def[symmetric]
      s1_def[symmetric]
    by (intro conjI)
qed

theorem C6_name_search_witness:
  "worker example_four = None \<and>
   (case Some (2::int) of None \<Rightarrow> True | Some n \<Rightarrow> 0 \<le> n) \<and>
   searchForObjects example_openmct ''q1'' '' A '' (Some 2) example_four
     = (ResolvedWith \<lparr>total = 3, hits = [Some (example_object ''2'' ''2''),
                                           Some (example_object ''10'' ''10'')]\<rparr>,
        example_four)"
proof -
  have h1: "worker example_four = None"
    by (simp add: example_four_eq constructor_def)
  have h2: "case Some (2::int) of None \<Rightarrow> True | Some n \<Rightarrow> 0 \<le> n" by simp
  have c: "contains ''a2'' ''a''" "contains ''a10'' ''a''" "contains ''ab'' ''a''"
    "\<not> contains ''zzz'' ''a''"
    unfolding includes_str_contains[symmetric] by (rule example_includes4)+
  have g: "objects_get example_openmct (parseKeyString example_openmct k)
             = Resolved (Some (example_object k k))" for k
    by (simp add: example_openmct_def)
  have p: "example_four\<lparr>pendingQueries := pendingQueries example_four - {''q1''}\<rparr>
             = example_four"
    by (simp add: example_four_eq constructor_def)
  note c6 = C6_name_search[OF h1 h2, of "'' A ''" "''q1''" example_openmct,
      unfolded Let_def example_four_values example_strings4, THEN conjunct2, THEN conjunct2,
      THEN conjunct1]
  from c6 have "searchForObjects example_openmct ''q1'' '' A '' (Some 2) example_four
     = (ResolvedWith \<lparr>total = 3, hits = [Some (example_object ''2'' ''2''),
                                           Some (example_object ''10'' ''10'')]\<rparr>,
        example_four)"
    by (simp add: example_strings4 c g p numeral_2_eq_2)
  with h1 h2 show ?thesis by (intro conjI)
qed

text \<open>
  The input is not matched as it is written: the input \<open>" a"\<close> returns the entry named
  \<open>a\<close>, whose name does not contain \<open>" a"\<close>; and a cap of 0 returns a hit.
\<close>

theorem C6_input_is_trimmed:
  "fst (searchForObjects example_openmct ''q1'' '' a'' (Some 10) example_indexed)
     = ResolvedWith \<lparr>total = 1, hits = [Some (example_object ''a'' ''a'')]\<rparr> \<and>
   \<not> contains (toLowerCase (name (example_object ''a'' ''a''))) (toLowerCase '' a'') \<and>
   fst (searchForObjects example_openmct ''q1'' ''a'' (Some 0) example_indexed)
     = ResolvedWith \<lparr>total = 1, hits = [Some (example_object ''a'' ''a'')]\<rparr>"
proof -
  have "\<not> contains (toLowerCase (name (example_object ''a'' ''a''))) (toLowerCase '' a'')"
    unfolding includes_str_contains[symmetric]
    by (simp add: example_object_def example_strings)
  then show ?thesis by (simp add: example_search)
qed

text \<open>
  C7. The query \<open>sci\<close> matches the tag \<open>tag1\<close> (label \<open>science\<close>); no annotation carries the
  tag, the tag-centric index has no entry for it, and the result list of the local tag
  search is one undefined element with \<open>total = 1\<close>; the caller's query is never resolved.
\<close>

theorem C7_tag_without_entries:
  "getMatchingTags example_tags ''sci'' = [''tag1''] \<and>
   localSearchForTags_message ''q1'' (Some (getMatchingTags example_tags ''sci'')) 100 constructor
     = \<lparr>m_request = ''searchForTags'', m_results = [None], m_total = 1, m_queryId = ''q1''\<rparr> \<and>
   searchForTags example_openmct ''q1'' (Some (getMatchingTags example_tags ''sci'')) (Some 100)
     constructor
     = (Unresolved, constructor\<lparr>pendingQueries := {''q1''}\<rparr>)"
proof -
  have m: "localSearchForTags_message ''q1'' (Some [''tag1'']) 100 s
     = \<lparr>m_request = ''searchForTags'', m_results = [None], m_total = 1, m_queryId = ''q1''\<rparr>"
    if "localIndexedAnnotationsByTag s = []" for s
    using that by (simp add: localSearchForTags_message_def slice0_def)
  have "searchForTags example_openmct ''q1'' (Some [''tag1'']) (Some 100) constructor
     = (Unresolved, constructor\<lparr>pendingQueries := {''q1''}\<rparr>)"
    by (simp add: searchForTags_def search_def localSearchForTags_def Let_def m
        constructor_def onWorkerMessage_def hydrate_def)
  moreover have "localIndexedAnnotationsByTag constructor = []"
    by (simp add: constructor_def)
  ultimately show ?thesis
    by (simp add: example_matching m)
qed

text \<open>
  C8. On a host that has shared workers, \<open>startIndexing\<close> still leaves the worker unset,
  and a name search made afterwards is answered by the local functions and not
  dispatched to a worker; on every host and in every state \<open>startIndexing\<close> leaves the
  worker as it was. The source tests \<open>false\<close> where its comments describe the test for
  \<open>SharedWorker\<close>.
\<close>

theorem C8_host_support_ignored:
  "sharedWorkerDefined example_openmct \<and>
   worker (startIndexing example_openmct constructor) = None \<and>
   fst (searchForObjects example_openmct ''q1'' ''x'' None
          (startIndexing example_openmct constructor))
     = ResolvedWith \<lparr>total = 0, hits = []\<rparr> \<and>
   fst (searchForObjects example_openmct ''q1'' ''x'' None
          (startIndexing example_openmct constructor)) \<noteq> Dispatched \<and>
   worker (startIndexing om s) = worker s"
proof -
  have "worker (startIndexing om s) = worker s"
    using worker_index_fields[OF index_fields_startIndexing] .
  moreover have "sharedWorkerDefined example_openmct"
    by (simp add: example_openmct_def)
  moreover have "fst (searchForObjects example_openmct ''q1'' ''x'' None
          (startIndexing example_openmct constructor))
     = ResolvedWith \<lparr>total = 0, hits = []\<rparr>"
    by (simp add: example_start)
       (simp add: searchForObjects_def search_def
         localSearchForObjects_def localSearchForObjects_message_def
         onWorkerMessage_def constructor_def slice0_def DEFAULT_MAX_RESULTS_def Let_def
         Object_values_def)
  moreover have "worker (startIndexing example_openmct constructor) = None"
    by (simp add: example_start) (simp add: constructor_def)
  ultimately show ?thesis by simp
qed

text \<open>
  C9. The list that a composition notification is compared with is the composition of
  the object bound to the observer, and \<open>onCompositionMutation\<close> never updates it. So,
  whatever \<open>areIdsEqual\<close> answers: for a parent indexed with the composition \<open>[a, b]\<close>, it
  is not the case that the notification \<open>[a, b, c]\<close> fetches exactly \<open>c\<close> and the
  notification \<open>[a, b, c, d]\<close> that follows fetches exactly \<open>d\<close>. With an \<open>areIdsEqual\<close> that
  compares the two identifiers of the array, the first notification fetches \<open>c\<close>, the
  resolved fetch puts \<open>c\<close> into the primary index and registers its observers, and the
  second notification fetches \<open>c\<close> again together with \<open>d\<close>.
\<close>

theorem C9_composition_not_updated:
  "\<not> (onCompositionMutation om example_parent
         [\<lparr>namespace = [], key = ''a''\<rparr>, \<lparr>namespace = [], key = ''b''\<rparr>,
          \<lparr>namespace = [], key = ''c''\<rparr>] s
        = Inr (s\<lparr>directFetches := directFetches s @ [\<lparr>namespace = [], key = ''c''\<rparr>]\<rparr>) \<and>
       onCompositionMutation om example_parent
         [\<lparr>namespace = [], key = ''a''\<rparr>, \<lparr>namespace = [], key = ''b''\<rparr>,
          \<lparr>namespace = [], key = ''c''\<rparr>, \<lparr>namespace = [], key = ''d''\<rparr>] t
        = Inr (t\<lparr>directFetches := directFetches t @ [\<lparr>namespace = [], key = ''d''\<rparr>]\<rparr>)) \<and>
   onCompositionMutation example_openmct example_parent
     [\<lparr>namespace = [], key = ''a''\<rparr>, \<lparr>namespace = [], key = ''b''\<rparr>,
      \<lparr>namespace = [], key = ''c''\<rparr>] constructor
     = Inr (constructor\<lparr>directFetches := [\<lparr>namespace = [], key = ''c''\<rparr>]\<rparr>) \<and>
   onCompositionMutation_fetched example_openmct \<lparr>namespace = [], key = ''c''\<rparr>
     (objects_get example_openmct \<lparr>namespace = [], key = ''c''\<rparr>)
     (constructor\<lparr>directFetches := [\<lparr>namespace = [], key = ''c''\<rparr>]\<rparr>)
     = constructor\<lparr>indexedIds := {''c''}, indexedCompositions := {''c''},
         localIndexedDomainObjects :=
           [(''c'', \<lparr>i_type = ''folder'', i_name = ''c'', i_keyString = ''c'',
                     i_targets = None, i_tags = None\<rparr>)]\<rparr> \<and>
   onCompositionMutation example_openmct example_parent
     [\<lparr>namespace = [], key = ''a''\<rparr>, \<lparr>namespace = [], key = ''b''\<rparr>,
      \<lparr>namespace = [], key = ''c''\<rparr>, \<lparr>namespace = [], key = ''d''\<rparr>]
     (constructor\<lparr>indexedIds := {''c''}, indexedCompositions := {''c''},
         localIndexedDomainObjects :=
           [(''c'', \<lparr>i_type = ''folder'', i_name = ''c'', i_keyString = ''c'',
                     i_targets = None, i_tags = None\<rparr>)]\<rparr>)
     = Inr (constructor\<lparr>indexedIds := {''c''}, indexedCompositions := {''c''},
         localIndexedDomainObjects :=
           [(''c'', \<lparr>i_type = ''folder'', i_name = ''c'', i_keyString = ''c'',
                     i_targets = None, i_tags = None\<rparr>)],
         directFetches := [\<lparr>namespace = [], key = ''c''\<rparr>, \<lparr>namespace = [], key = ''d''\<rparr>]\<rparr>)"
proof -
  let ?a = "\<lparr>namespace = [], key = ''a''\<rparr>" and ?b = "\<lparr>namespace = [], key = ''b''\<rparr>"
  let ?c = "\<lparr>namespace = [], key = ''c''\<rparr>" and ?d = "\<lparr>namespace = [], key = ''d''\<rparr>"
  define P where "P = (\<lambda>identifier.
      \<not> list_ex (\<lambda>indexedIdentifier. areIdsEqual om [AnArray [identifier, indexedIdentifier]])
           [?a, ?b])"
  have m: "onCompositionMutation om example_parent new u
             = Inr (u\<lparr>directFetches := directFetches u @ filter P new\<rparr>)" for new u
    by (simp add: onCompositionMutation_def example_parent_def P_def Let_def)
  have general: "\<not> (onCompositionMutation om example_parent [?a, ?b, ?c] s
        = Inr (s\<lparr>directFetches := directFetches s @ [?c]\<rparr>) \<and>
       onCompositionMutation om example_parent [?a, ?b, ?c, ?d] t
        = Inr (t\<lparr>directFetches := directFetches t @ [?d]\<rparr>))"
  proof
    assume both: "onCompositionMutation om example_parent [?a, ?b, ?c] s
        = Inr (s\<lparr>directFetches := directFetches s @ [?c]\<rparr>) \<and>
       onCompositionMutation om example_parent [?a, ?b, ?c, ?d] t
        = Inr (t\<lparr>directFetches := directFetches t @ [?d]\<rparr>)"
    then have "s\<lparr>directFetches := directFetches s @ filter P [?a, ?b, ?c]\<rparr>
                 = s\<lparr>directFetches := directFetches s @ [?c]\<rparr>"
      unfolding m by simp
    then have "directFetches (s\<lparr>directFetches := directFetches s @ filter P [?a, ?b, ?c]\<rparr>)
                 = directFetches (s\<lparr>directFetches := directFetches s @ [?c]\<rparr>)"
      by (rule arg_cong)
    then have "filter P [?a, ?b, ?c] = [?c]" by simp
    then have "?c \<in> set (filter P [?a, ?b, ?c])" by simp
    then have c: "P ?c" unfolding set_filter by blast
    from both have "t\<lparr>directFetches := directFetches t @ filter P [?a, ?b, ?c, ?d]\<rparr>
                 = t\<lparr>directFetches := directFetches t @ [?d]\<rparr>"
      unfolding m by simp
    then have "directFetches (t\<lparr>directFetches := directFetches t @ filter P [?a, ?b, ?c, ?d]\<rparr>)
                 = directFetches (t\<lparr>directFetches := directFetches t @ [?d]\<rparr>)"
      by (rule arg_cong)
    then have "filter P [?a, ?b, ?c, ?d] = [?d]" by simp
    moreover have "?c \<in> set (filter P [?a, ?b, ?c, ?d])"
      unfolding set_filter using c by simp
    ultimately have "?c \<in> set [?d]" by simp
    then show False by simp
  qed
  have first: "onCompositionMutation example_openmct example_parent [?a, ?b, ?c] constructor
     = Inr (constructor\<lparr>directFetches := [?c]\<rparr>)"
    by (simp add: onCompositionMutation_def example_parent_def example_openmct_def Let_def
        constructor_def)
  have fetched: "onCompositionMutation_fetched example_openmct ?c
     (objects_get example_openmct ?c) (constructor\<lparr>directFetches := [?c]\<rparr>)
     = constructor\<lparr>indexedIds := {''c''}, indexedCompositions := {''c''},
         localIndexedDomainObjects :=
           [(''c'', \<lparr>i_type = ''folder'', i_name = ''c'', i_keyString = ''c'',
                     i_targets = None, i_tags = None\<rparr>)]\<rparr>"
    by (simp add: onCompositionMutation_fetched_def index_begin_def localIndexItem_def
        example_openmct_def example_object_def example_keyString_def constructor_def Let_def
        object_eval)
  have second: "onCompositionMutation example_openmct example_parent [?a, ?b, ?c, ?d]
     (constructor\<lparr>indexedIds := {''c''}, indexedCompositions := {''c''},
         localIndexedDomainObjects :=
           [(''c'', \<lparr>i_type = ''folder'', i_name = ''c'', i_keyString = ''c'',
                     i_targets = None, i_tags = None\<rparr>)]\<rparr>)
     = Inr (constructor\<lparr>indexedIds := {''c''}, indexedCompositions := {''c''},
         localIndexedDomainObjects :=
           [(''c'', \<lparr>i_type = ''folder'', i_name = ''c'', i_keyString = ''c'',
                     i_targets = None, i_tags = None\<rparr>)],
         directFetches := [?c, ?d]\<rparr>)"
    by (simp add: onCompositionMutation_def example_parent_def example_openmct_def Let_def
        constructor_def)
  from general first fetched second show ?thesis by (intro conjI)
qed

text \<open>
  C10. Without a worker, an annotation search for a target key string that has no entry in
  the target-centric index builds no result message: reading the length of the undefined
  lookup result throws a \<open>TypeError\<close> out of \<open>searchForAnnotations\<close>, and the query stored
  under the query id stays pending.
\<close>

theorem C10_annotation_search_throws:
  assumes "map_of (localIndexedAnnotationsByDomainObject s) targetKeyString = None"
    and "worker s = None"
  shows "localSearchForAnnotations_message queryId targetKeyString m s
           = Inl (TypeError ''results is undefined'') \<and>
         searchForAnnotations om queryId targetKeyString maxResults s
           = (Threw (TypeError ''results is undefined''),
              s\<lparr>pendingQueries := insert queryId (pendingQueries s)\<rparr>) \<and>
         queryId \<in> pendingQueries
           (snd (searchForAnnotations om queryId targetKeyString maxResults s))"
  using assms
  by (simp add: searchForAnnotations_def search_def localSearchForAnnotations_def
      localSearchForAnnotations_message_def Let_def)

theorem C10_annotation_search_throws_witness:
  "map_of (localIndexedAnnotationsByDomainObject constructor) ''a'' = None \<and>
   worker constructor = None \<and>
   searchForAnnotations example_openmct ''q1'' ''a'' (Some 10) constructor
     = (Threw (TypeError ''results is undefined''), constructor\<lparr>pendingQueries := {''q1''}\<rparr>)"
proof -
  have h1: "map_of (localIndexedAnnotationsByDomainObject constructor) ''a'' = None"
    and h2: "worker constructor = None"
    by (simp_all add: constructor_def)
  from C10_annotation_search_throws[OF h1 h2, of "''q1''" 10 example_openmct "Some 10"]
  have "searchForAnnotations example_openmct ''q1'' ''a'' (Some 10) constructor
     = (Threw (TypeError ''results is undefined''),
        constructor\<lparr>pendingQueries := insert ''q1'' (pendingQueries constructor)\<rparr>)"
    by simp
  then show ?thesis using h1 h2 by (simp add: constructor_def)
qed

end
